theory Spec2Isabelle
  imports Main "HOL-Library.Word"
begin

unbundle bit_operations_syntax

section \<open>Storage backend: compression, envelope, key-to-path encoding\<close>

text \<open>
  The file backend (\<^verbatim>\<open>FileCacheBackend\<close>) stores one file per key. The bytes of a file
  are a \<^verbatim>\<open>Buffer\<close>, modelled as a list of 8-bit words. JavaScript strings are modelled
  as \<^typ>\<open>string\<close>, one \<^typ>\<open>char\<close> per code unit (code units below 256).
\<close>

type_synonym buffer = "8 word list"

subsection \<open>compressMaybe and decompressMaybe\<close>

text \<open>
  \<^verbatim>\<open>compress\<close> and \<open>decompress\<close> belong to the zstd library. What the two functions
  return is modelled as the library call they make (or none): \<open>Raw b\<close> is the buffer
  returned as it is, \<open>Compress b level\<close> the result of \<^verbatim>\<open>compress(b, level)\<close>,
  \<open>Decompress b\<close> the result of \<^verbatim>\<open>decompress(b)\<close>.
\<close>

datatype zstd = Raw buffer | Compress buffer nat | Decompress buffer

definition compressMaybe :: "buffer \<Rightarrow> zstd" where
  "compressMaybe buffer =
     (if length buffer < 256 then Raw buffer
      else Compress buffer 3)"

definition decompressMaybe :: "buffer \<Rightarrow> zstd" where
  "decompressMaybe buffer =
     (if length buffer < 64 then Raw buffer
      else if buffer ! 3 = 0xFD \<and> buffer ! 2 = 0x2F \<and> buffer ! 1 = 0xB5 \<and> buffer ! 0 = 0x28
        then Decompress buffer
      else Raw buffer)"

text \<open>The zstd frame magic number, as the bytes at offsets 0 to 3.\<close>

definition zstd_magic :: buffer where
  "zstd_magic = [0x28, 0xB5, 0x2F, 0xFD]"

text \<open>Running the library call, given the library's two functions.\<close>

fun run_zstd :: "(buffer \<Rightarrow> nat \<Rightarrow> buffer) \<Rightarrow> (buffer \<Rightarrow> buffer) \<Rightarrow> zstd \<Rightarrow> buffer" where
  "run_zstd compress decompress (Raw b) = b"
| "run_zstd compress decompress (Compress b level) = compress b level"
| "run_zstd compress decompress (Decompress b) = decompress b"

subsection \<open>The envelope written by the backend's set\<close>

text \<open>Plain (JSON) values.\<close>

datatype json =
    JNull
  | JBool bool
  | JNum int
  | JStr string
  | JArr "json list"
  | JObj "(string \<times> json) list"

fun join :: "string \<Rightarrow> string list \<Rightarrow> string" where
  "join sep [] = []"
| "join sep [x] = x"
| "join sep (x # y # ys) = x @ sep @ join sep (y # ys)"

text \<open>
  \<^verbatim>\<open>JSON.stringify({t, c, v: value})\<close>: an object literal with the properties \<open>t\<close>,
  \<open>c\<close>, \<open>v\<close> in this order; a property whose value is undefined (\<open>None\<close>) is left
  out. \<open>str\<close> is \<^verbatim>\<open>JSON.stringify\<close> on the property values.
\<close>

definition member :: "(json \<Rightarrow> string) \<Rightarrow> string \<Rightarrow> json option \<Rightarrow> string list" where
  "member str name x =
     (case x of None \<Rightarrow> [] | Some j \<Rightarrow> [''\"'' @ name @ ''\":'' @ str j])"

definition stringify_envelope ::
  "(json \<Rightarrow> string) \<Rightarrow> int option \<Rightarrow> int option \<Rightarrow> json option \<Rightarrow> string" where
  "stringify_envelope str t c v =
     ''{'' @ join '','' (member str ''t'' (map_option JNum t)
                        @ member str ''c'' (map_option JNum c)
                        @ member str ''v'' v) @ ''}''"

text \<open>\<^verbatim>\<open>Buffer.from(string)\<close> on a string of code units below 128 (one byte each).\<close>

definition Buffer_from :: "string \<Rightarrow> buffer" where
  "Buffer_from s = map of_char s"

text \<open>
  The bytes \<^verbatim>\<open>FileCacheBackend.set\<close> hands to \<^verbatim>\<open>fs.writeFile\<close>:
  \<^verbatim>\<open>compressMaybe(Buffer.from(JSON.stringify({t, c, v: value})))\<close>.
\<close>

definition set_payload ::
  "(json \<Rightarrow> string) \<Rightarrow> int option \<Rightarrow> int option \<Rightarrow> json option \<Rightarrow> zstd" where
  "set_payload str t c v = compressMaybe (Buffer_from (stringify_envelope str t c v))"

subsection \<open>Key to path, current backend\<close>

text \<open>
  \<^verbatim>\<open>key.split(sep)\<close> for a separator string: the pieces between the occurrences of
  \<open>sep\<close>, found from the left; a string without the separator gives one piece.
  \<open>acc\<close> holds the current piece, reversed.
\<close>

function split_acc :: "string \<Rightarrow> string \<Rightarrow> string \<Rightarrow> string list" where
  "split_acc sep acc [] = [rev acc]"
| "split_acc sep acc (x # xs) =
     (if take (length sep) (x # xs) = sep
      then rev acc # split_acc sep [] (drop (length sep - 1) xs)
      else split_acc sep (x # acc) xs)"
  by pat_completeness auto
termination
  by (relation "measure (\<lambda>(sep, acc, xs). length xs)") auto

definition split :: "string \<Rightarrow> string \<Rightarrow> string list" where
  "split sep key = split_acc sep [] key"

definition KEY_SEPARATOR :: string where
  "KEY_SEPARATOR = [CHR 0x0B, CHR ''/'']"

text \<open>
  \<^verbatim>\<open>hash(str)\<close>: the SHA-1 digest in base64url (the parameter \<open>sha1\<close>, from the crypto
  library), with every \<open>_\<close> and \<open>-\<close> removed, then \<^verbatim>\<open>substring(5, 15)\<close>.
\<close>

definition hash :: "(string \<Rightarrow> string) \<Rightarrow> string \<Rightarrow> string" where
  "hash sha1 str =
     take 10 (drop 5 (filter (\<lambda>ch. ch \<noteq> CHR ''_'' \<and> ch \<noteq> CHR ''-'') (sha1 str)))"

definition keyToPath :: "(string \<Rightarrow> string) \<Rightarrow> string \<Rightarrow> string \<Rightarrow> string" where
  "keyToPath sha1 CACHE_DIR key =
     (let parts = split KEY_SEPARATOR key;
          parts' = butlast parts @ [hash sha1 (last parts)]
      in CACHE_DIR @ ''/'' @ join ''/'' parts')"

definition keyToFile :: "(string \<Rightarrow> string) \<Rightarrow> string \<Rightarrow> string \<Rightarrow> string" where
  "keyToFile sha1 CACHE_DIR key = keyToPath sha1 CACHE_DIR key @ ''.fc''"

subsection \<open>Key to path, earlier backend object\<close>

text \<open>
  The earlier \<^verbatim>\<open>FileCache.backend.keyToPath\<close>. The character class of its first
  replacement: white space and the listed punctuation.
\<close>

definition unsafe_char :: "char \<Rightarrow> bool" where
  "unsafe_char ch =
     (ch \<in> set [CHR 0x09, CHR 0x0A, CHR 0x0B, CHR 0x0C, CHR 0x0D, CHR 0x20, CHR 0xA0]
      \<or> ch \<in> set [CHR 0x60, CHR ''!'', CHR ''@'', CHR ''#'', CHR ''$'', CHR ''%'', CHR ''^'',
                    CHR ''&'', CHR ''*'', CHR ''('', CHR '')'', CHR ''='', CHR ''+'', CHR ''['',
                    CHR '']'', CHR ''{'', CHR ''}'', CHR 0x5C, CHR ''|'', CHR '':'', CHR '';'',
                    CHR 0x27, CHR 0x22, CHR '','', CHR ''<'', CHR ''>'', CHR ''/'', CHR ''?''])"

text \<open>Every maximal run of unsafe characters becomes one slash.\<close>

fun replace_unsafe :: "bool \<Rightarrow> string \<Rightarrow> string" where
  "replace_unsafe in_run [] = []"
| "replace_unsafe in_run (x # xs) =
     (if unsafe_char x
      then (if in_run then replace_unsafe True xs else CHR ''/'' # replace_unsafe True xs)
      else x # replace_unsafe False xs)"

definition strip_trailing_slash :: "string \<Rightarrow> string" where
  "strip_trailing_slash s = (if s \<noteq> [] \<and> last s = CHR ''/'' then butlast s else s)"

text \<open>The match of \<^verbatim>\<open>/\/[^/]*$/\<close>: the last slash and what follows it.\<close>

definition last_part :: "string \<Rightarrow> string option" where
  "last_part s =
     (if CHR ''/'' \<in> set s
      then Some (CHR ''/'' # rev (takeWhile (\<lambda>ch. ch \<noteq> CHR ''/'') (rev s)))
      else None)"

definition before_last_part :: "string \<Rightarrow> string" where
  "before_last_part s = rev (tl (dropWhile (\<lambda>ch. ch \<noteq> CHR ''/'') (rev s)))"

definition legacy_keyToPath :: "(string \<Rightarrow> string) \<Rightarrow> string \<Rightarrow> string \<Rightarrow> string" where
  "legacy_keyToPath sha1 cacheDir key0 =
     (let key =
        (if length key0 > 2048 then sha1 key0
         else
           (let key1 = strip_trailing_slash (replace_unsafe False key0)
            in if length key1 > 200
               then (case last_part key1 of
                       Some lastPart \<Rightarrow>
                         if length lastPart > 200
                         then before_last_part key1 @ ''/'' @ sha1 lastPart
                         else key1
                     | None \<Rightarrow> key1)
               else key1))
      in cacheDir @ ''/'' @ key)"

section \<open>Coordinator: data\<close>

text \<open>
  \<^verbatim>\<open>BaseCache\<close> is asynchronous: its methods suspend at every backend call, at every
  promise they await and at \<^verbatim>\<open>setTimeout\<close>, and other calls run meanwhile. The model
  is a machine: a state (the four in-flight maps, the promises, the backend's entries, the
  suspended tasks) and a step per event of the event loop. A method is written as the part
  that runs until its first suspension and one continuation per suspension point; a
  suspended task is the stack of the continuations that wait for it. A leading underscore
  of a source name is written \<open>u_\<close>.
\<close>

type_synonym key = string
type_synonym error = string
type_synonym jsv = "json option"  \<comment> \<open>a value or \<^verbatim>\<open>undefined\<close> (\<open>None\<close>)\<close>

text \<open>Promises: \<open>U n\<close> is made by the caller (and settled by it), \<open>I n\<close> by the cache.\<close>

datatype pid = U nat | I nat

datatype pstate = Pending | Fulfilled jsv | Rejected error

datatype outcome = Return jsv | Throw error

text \<open>
  The \<open>value\<close> argument of \<^verbatim>\<open>set\<close> and \<^verbatim>\<open>getOrSet\<close>: undefined, a plain value, a
  promise (thenable), or a function. A function \<open>Producer f r\<close> has the name \<open>f\<close> (each
  call is recorded under it) and \<open>r\<close> is what a call does: it throws, or gives a value
  that is not a function.
\<close>

datatype direct = Undefined | Plain json | Thenable pid

datatype answer = Throws error | Gives direct

datatype "value" = Direct direct | Producer nat answer

text \<open>\<^verbatim>\<open>ttl\<close> and \<^verbatim>\<open>staleTTL\<close>: milliseconds or a time string.\<close>

datatype ttlspec = Ms int | Str string

record opts =
  o_ttl :: "ttlspec option"
  o_staleTTL :: "ttlspec option"
  o_requireResult :: "bool option"
  o_freshResult :: bool
  o_forceUpdate :: bool
  o_fromJSON :: "(jsv \<Rightarrow> error + jsv) option"
  o_process :: "(jsv \<Rightarrow> error + jsv) option"
  o_default :: jsv

text \<open>
  The cache object: \<^verbatim>\<open>this.prefix\<close>, \<^verbatim>\<open>this.keyPath\<close>, \<^verbatim>\<open>this.KEY_SEPARATOR\<close>,
  \<^verbatim>\<open>this._bypass\<close> (\<open>None\<close> when never set), the class's \<^verbatim>\<open>_bypass\<close>, and the
  \<^verbatim>\<open>timestring\<close> library function, which gives the milliseconds of a time string or
  throws on a string it cannot parse.
\<close>

record cache =
  prefix :: string
  keyPath :: string
  separator :: string
  inst_bypass :: "bool option"
  class_bypass :: bool
  timestring :: "string \<Rightarrow> error + int"

text \<open>The entry the backend stores under a key: \<^verbatim>\<open>{t, c, v}\<close>.\<close>

record CacheValue =
  cv_v :: json
  cv_c :: int
  cv_t :: "int option"

text \<open>The context objects (\<^verbatim>\<open>ctx\<close>, \<^verbatim>\<open>setCtx\<close>), held in a heap.\<close>

record ctxobj =
  ctx_staleTTL :: "int option"
  ctx_isStale :: bool
  ctx_result :: jsv

datatype keyarg = One key | Many "key list"

text \<open>Backend calls, with the prefixed keys.\<close>

datatype io =
    BackendGet key
  | BackendSet key json "int option" int
  | BackendDel "key list"
  | BackendTouch "key list" "int option" "int option"

text \<open>The continuations, one per suspension point of the source.\<close>

datatype frame =
    K_getStale_read key opts nat
  | K_settle pid
  | K_getStale_tail key jsv
  | K_getStale_shared jsv
  | K_withDefault jsv
  | K_withDefaultOpts opts
  | K_del
  | K_markStale
  | K_set_io
  | K_setBoth jsv
  | K_set_resolved key opts nat
  | K_set_done key nat
  | K_set_catch key error
  | K_getOrSet1 key "value" opts
  | K_result_or_default opts nat
  | K_getOrSet_tail key
  | K_getOrSetStale key "value" opts nat
  | K_background key "value" opts
  | K_background_done key

datatype wait = OnIO io | OnPromise pid | OnTimer

text \<open>Who gets a task's outcome: the caller of call \<open>cid\<close>, or nobody.\<close>

datatype target = Report nat | Discard

record task =
  waiting :: wait
  stack :: "frame list"
  target :: target

datatype logentry =
    LogError error
  | LogSetUndefined key
  | LogSetFailed key error

record state =
  getting :: "key \<rightharpoonup> pid"
  setting :: "key \<rightharpoonup> pid"
  getOrSetting :: "key \<rightharpoonup> pid"
  getOrSettingStale :: "key \<rightharpoonup> bool"
  promises :: "pid \<Rightarrow> pstate"
  next_pid :: nat
  ctxs :: "nat \<Rightarrow> ctxobj"
  next_ctx :: nat
  store :: "key \<rightharpoonup> CacheValue"
  now :: int
  tasks :: "nat \<rightharpoonup> task"
  next_tid :: nat
  calls :: "nat list"
  logged :: "logentry list"
  results :: "nat \<rightharpoonup> outcome"

text \<open>
  What a piece of code does until it returns or suspends: \<open>Ret\<close> with its outcome, or
  \<open>Susp\<close> with what it waits for and the continuations (innermost first).
\<close>

datatype result = Ret outcome state | Susp wait "frame list" state

text \<open>What resumes a task: the entry a backend read found, or an outcome.\<close>

datatype signal = IoGot "CacheValue option" | Done outcome

fun outcome_of :: "signal \<Rightarrow> outcome" where
  "outcome_of (Done out) = out"
| "outcome_of (IoGot e) = Return None"

definition bind :: "result \<Rightarrow> frame \<Rightarrow> (outcome \<Rightarrow> state \<Rightarrow> result) \<Rightarrow> result" where
  "bind r f k = (case r of Ret out s \<Rightarrow> k out s | Susp w fs s \<Rightarrow> Susp w (fs @ [f]) s)"

definition add_task :: "wait \<Rightarrow> frame list \<Rightarrow> target \<Rightarrow> state \<Rightarrow> state" where
  "add_task w fs tg s =
     s\<lparr>tasks := (tasks s)(next_tid s \<mapsto> \<lparr>waiting = w, stack = fs, target = tg\<rparr>),
       next_tid := Suc (next_tid s)\<rparr>"

text \<open>A call whose promise nobody awaits.\<close>

definition detach :: "result \<Rightarrow> state" where
  "detach r = (case r of Ret out s \<Rightarrow> s | Susp w fs s \<Rightarrow> add_task w fs Discard s)"

definition log_error :: "logentry \<Rightarrow> state \<Rightarrow> state" where
  "log_error e s = s\<lparr>logged := logged s @ [e]\<rparr>"

definition new_promise :: "pstate \<Rightarrow> state \<Rightarrow> pid \<times> state" where
  "new_promise ps s =
     (I (next_pid s), s\<lparr>promises := (promises s)(I (next_pid s) := ps), next_pid := Suc (next_pid s)\<rparr>)"

definition settle :: "pid \<Rightarrow> outcome \<Rightarrow> state \<Rightarrow> state" where
  "settle p out s =
     s\<lparr>promises := (promises s)(p := (case out of Return x \<Rightarrow> Fulfilled x | Throw e \<Rightarrow> Rejected e))\<rparr>"

definition new_ctx :: "int option \<Rightarrow> state \<Rightarrow> nat \<times> state" where
  "new_ctx staleTTL s =
     (next_ctx s,
      s\<lparr>ctxs := (ctxs s)(next_ctx s := \<lparr>ctx_staleTTL = staleTTL, ctx_isStale = False, ctx_result = None\<rparr>),
        next_ctx := Suc (next_ctx s)\<rparr>)"

definition JTrue :: jsv where "JTrue = Some (JBool True)"
definition JFalse :: jsv where "JFalse = Some (JBool False)"

section \<open>Coordinator: operations\<close>

subsection \<open>Helpers of the module\<close>

text \<open>
  \<^verbatim>\<open>parseTTL(ttl)\<close>: a string goes through \<^verbatim>\<open>timestring(ttl, 'ms')\<close>, whose throw is the
  throw of \<^verbatim>\<open>parseTTL\<close>; anything else is returned as it is.
\<close>

definition parseTTL :: "cache \<Rightarrow> ttlspec option \<Rightarrow> error + int option" where
  "parseTTL this ttl =
     (case ttl of
        Some (Str str) \<Rightarrow> (case timestring this str of Inl e \<Rightarrow> Inl e | Inr n \<Rightarrow> Inr (Some n))
      | Some (Ms n) \<Rightarrow> Inr (Some n)
      | None \<Rightarrow> Inr None)"

text \<open>JavaScript truthiness of a number or string option and of a parsed number.\<close>

definition truthy_ttl :: "ttlspec option \<Rightarrow> bool" where
  "truthy_ttl ttl =
     (case ttl of None \<Rightarrow> False | Some (Ms n) \<Rightarrow> n \<noteq> 0 | Some (Str str) \<Rightarrow> str \<noteq> [])"

definition truthy_num :: "int option \<Rightarrow> bool" where
  "truthy_num n = (case n of None \<Rightarrow> False | Some k \<Rightarrow> k \<noteq> 0)"

definition setCtxStale :: "nat \<Rightarrow> CacheValue \<Rightarrow> state \<Rightarrow> state" where
  "setCtxStale ctx val s =
     (if truthy_num (ctx_staleTTL (ctxs s ctx))
      then (if cv_c val < now s - the (ctx_staleTTL (ctxs s ctx))
            then s\<lparr>ctxs := (ctxs s)(ctx := (ctxs s ctx)\<lparr>ctx_isStale := True\<rparr>)\<rparr>
            else s)
      else s)"

text \<open>\<^verbatim>\<open>options.f ? await options.f(x) : x\<close> for \<open>fromJSON\<close> and \<open>process\<close>.\<close>

definition apply_fn :: "(jsv \<Rightarrow> error + jsv) option \<Rightarrow> jsv \<Rightarrow> error + jsv" where
  "apply_fn f x = (case f of None \<Rightarrow> Inr x | Some g \<Rightarrow> g x)"

subsection \<open>The in-flight maps\<close>

text \<open>
  \<^verbatim>\<open>_fetching(map, key, value)\<close>: with no value a lookup, with \<^verbatim>\<open>DELETE\<close> a removal,
  with a value a store. It returns what the source returns and the map.
\<close>

datatype 'a fetch = Lookup | DELETE | Store 'a

definition u_key :: "cache \<Rightarrow> key \<Rightarrow> key" where
  "u_key this key = keyPath this @ separator this @ key"

definition u_fetching ::
  "cache \<Rightarrow> (key \<rightharpoonup> 'a) \<Rightarrow> key \<Rightarrow> 'a fetch \<Rightarrow> 'a option \<times> (key \<rightharpoonup> 'a)" where
  "u_fetching this m key val =
     (let prefixedKey = u_key this key
      in case val of
           Lookup \<Rightarrow> (m prefixedKey, m)
         | DELETE \<Rightarrow> (None, m(prefixedKey := None))
         | Store x \<Rightarrow> (Some x, m(prefixedKey \<mapsto> x)))"

definition u_getting :: "cache \<Rightarrow> key \<Rightarrow> pid fetch \<Rightarrow> state \<Rightarrow> pid option \<times> state" where
  "u_getting this key val s =
     (let (r, m) = u_fetching this (getting s) key val in (r, s\<lparr>getting := m\<rparr>))"

definition u_setting :: "cache \<Rightarrow> key \<Rightarrow> pid fetch \<Rightarrow> state \<Rightarrow> pid option \<times> state" where
  "u_setting this key val s =
     (let (r, m) = u_fetching this (setting s) key val in (r, s\<lparr>setting := m\<rparr>))"

definition u_getOrSetting :: "cache \<Rightarrow> key \<Rightarrow> pid fetch \<Rightarrow> state \<Rightarrow> pid option \<times> state" where
  "u_getOrSetting this key val s =
     (let (r, m) = u_fetching this (getOrSetting s) key val in (r, s\<lparr>getOrSetting := m\<rparr>))"

definition u_getOrSettingStale ::
  "cache \<Rightarrow> key \<Rightarrow> bool fetch \<Rightarrow> state \<Rightarrow> bool option \<times> state" where
  "u_getOrSettingStale this key val s =
     (let (r, m) = u_fetching this (getOrSettingStale s) key val in (r, s\<lparr>getOrSettingStale := m\<rparr>))"

definition isBypassed :: "cache \<Rightarrow> bool" where
  "isBypassed this = (case inst_bypass this of Some b \<Rightarrow> b | None \<Rightarrow> class_bypass this)"

subsection \<open>del and markStale\<close>

definition keys_of :: "keyarg \<Rightarrow> key list" where
  "keys_of key = (case key of One k \<Rightarrow> [k] | Many ks \<Rightarrow> ks)"

definition u_del_k :: "outcome \<Rightarrow> state \<Rightarrow> result" where
  "u_del_k out s =
     (case out of
        Return x \<Rightarrow> Ret (Return None) s
      | Throw e \<Rightarrow> Ret (Return None) (log_error (LogError e) s))"

definition u_del :: "cache \<Rightarrow> keyarg \<Rightarrow> state \<Rightarrow> result" where
  "u_del this key s = Susp (OnIO (BackendDel (map (u_key this) (keys_of key)))) [K_del] s"

definition del :: "cache \<Rightarrow> keyarg \<Rightarrow> state \<Rightarrow> result" where
  "del this key s = u_del this key s"

definition u_markStale_k :: "outcome \<Rightarrow> state \<Rightarrow> result" where
  "u_markStale_k out s =
     (case out of
        Return x \<Rightarrow> Ret (Return None) s
      | Throw e \<Rightarrow> Ret (Return None) (log_error (LogError e) s))"

definition u_markStale :: "cache \<Rightarrow> keyarg \<Rightarrow> state \<Rightarrow> result" where
  "u_markStale this key s =
     Susp (OnIO (BackendTouch (map (u_key this) (keys_of key)) None (Some 0))) [K_markStale] s"

definition markStale :: "cache \<Rightarrow> keyarg \<Rightarrow> state \<Rightarrow> result" where
  "markStale this key s = u_markStale this key s"

subsection \<open>get and getStale\<close>

text \<open>
  \<^verbatim>\<open>_get\<close> after \<^verbatim>\<open>await this.backend.get(...)\<close>: an entry with a truthy \<open>t\<close> that is
  older than \<open>t\<close> is deleted (the \<^verbatim>\<open>_del\<close> is not awaited) and reported as undefined;
  a backend error is logged and reported as undefined.
\<close>

definition u_get_k :: "cache \<Rightarrow> key \<Rightarrow> signal \<Rightarrow> state \<Rightarrow> CacheValue option \<times> state" where
  "u_get_k this key sig s =
     (case sig of
        IoGot val \<Rightarrow>
          (case val of
             Some e \<Rightarrow>
               if truthy_num (cv_t e) \<and> cv_c e < now s - the (cv_t e)
               then (None, detach (u_del this (One key) s))
               else (val, s)
           | None \<Rightarrow> (val, s))
      | Done (Return x) \<Rightarrow> (None, s)
      | Done (Throw e) \<Rightarrow> (None, log_error (LogError e) s))"

text \<open>The callback of \<^verbatim>\<open>this._get(key).then(...)\<close> in \<^verbatim>\<open>getStale\<close>.\<close>

definition getStale_then :: "opts \<Rightarrow> nat \<Rightarrow> CacheValue option \<Rightarrow> state \<Rightarrow> result" where
  "getStale_then options ctx val s =
     (case val of
        None \<Rightarrow> Ret (Return None) s
      | Some e \<Rightarrow>
          (let s1 = setCtxStale ctx e s
           in case apply_fn (o_fromJSON options) (Some (cv_v e)) of
                Inl err \<Rightarrow> Ret (Throw err) s1
              | Inr x \<Rightarrow>
                  (case apply_fn (o_process options) x of
                     Inl err \<Rightarrow> Ret (Throw err) s1
                   | Inr y \<Rightarrow> Ret (Return y) s1)))"

definition getStale_read_k :: "cache \<Rightarrow> key \<Rightarrow> opts \<Rightarrow> nat \<Rightarrow> signal \<Rightarrow> state \<Rightarrow> result" where
  "getStale_read_k this key options ctx sig s =
     (let (val, s1) = u_get_k this key sig s in getStale_then options ctx val s1)"

text \<open>A promise kept in a map settles with the outcome of the code that computes it.\<close>

definition settle_k :: "pid \<Rightarrow> outcome \<Rightarrow> state \<Rightarrow> result" where
  "settle_k p out s = Ret out (settle p out s)"

text \<open>
  \<^verbatim>\<open>getStale\<close> after \<^verbatim>\<open>await promise\<close>: the entry of the map is removed and the value,
  or the default, returned. When the promise rejects, the \<^verbatim>\<open>await\<close> throws and the
  rest of the function does not run.
\<close>

definition getStale_tail_k :: "cache \<Rightarrow> key \<Rightarrow> jsv \<Rightarrow> outcome \<Rightarrow> state \<Rightarrow> result" where
  "getStale_tail_k this key defaultValue out s =
     (case out of
        Throw e \<Rightarrow> Ret (Throw e) s
      | Return val \<Rightarrow>
          (let (r, s1) = u_getting this key DELETE s
           in Ret (Return (if val = None then defaultValue else val)) s1))"

text \<open>\<^verbatim>\<open>getStale\<close> after \<^verbatim>\<open>await gettingPromise\<close>, and \<^verbatim>\<open>_withDefault\<close>.\<close>

definition withDefault_k :: "jsv \<Rightarrow> outcome \<Rightarrow> state \<Rightarrow> result" where
  "withDefault_k defaultValue out s =
     (case out of
        Throw e \<Rightarrow> Ret (Throw e) s
      | Return val \<Rightarrow> Ret (Return (if val = None then defaultValue else val)) s)"

definition getStale :: "cache \<Rightarrow> key \<Rightarrow> jsv \<Rightarrow> opts \<Rightarrow> nat \<Rightarrow> state \<Rightarrow> result" where
  "getStale this key defaultValue options ctx s =
     (case fst (u_getting this key Lookup s) of
        Some gettingPromise \<Rightarrow> Susp (OnPromise gettingPromise) [K_getStale_shared defaultValue] s
      | None \<Rightarrow>
          (let (promise, s1) = new_promise Pending s;
               (r, s2) = u_getting this key (Store promise) s1
           in Susp (OnIO (BackendGet (u_key this key)))
                [K_getStale_read key options ctx, K_settle promise,
                 K_getStale_tail key defaultValue] s2))"

definition get :: "cache \<Rightarrow> key \<Rightarrow> jsv \<Rightarrow> opts \<Rightarrow> state \<Rightarrow> result" where
  "get this key defaultValue options s =
     (case fst (u_setting this key Lookup s) of
        Some settingPromise \<Rightarrow> Susp (OnPromise settingPromise) [K_withDefault defaultValue] s
      | None \<Rightarrow>
          (let (ctx, s1) = new_ctx None s
           in getStale this key defaultValue options ctx s1))"

subsection \<open>set\<close>

definition u_set_k :: "outcome \<Rightarrow> state \<Rightarrow> result" where
  "u_set_k out s =
     (case out of
        Return x \<Rightarrow> Ret (Return JTrue) s
      | Throw e \<Rightarrow> Ret (Return JFalse) (log_error (LogError e) s))"

definition u_set :: "cache \<Rightarrow> key \<Rightarrow> jsv \<Rightarrow> int option \<Rightarrow> int \<Rightarrow> state \<Rightarrow> result" where
  "u_set this key val ttl createdAt s =
     (case val of
        None \<Rightarrow> Ret (Return JTrue) s
      | Some x \<Rightarrow>
          Susp (OnIO (BackendSet (u_key this key) x ttl
                        (if createdAt \<noteq> 0 then createdAt else now s)))
            [K_set_io] s)"

definition u_setBoth_k :: "jsv \<Rightarrow> outcome \<Rightarrow> state \<Rightarrow> result" where
  "u_setBoth_k localVal out s =
     (case out of
        Return x \<Rightarrow> Ret (Return localVal) s
      | Throw e \<Rightarrow> Ret (Throw e) s)"

definition u_setBoth :: "cache \<Rightarrow> key \<Rightarrow> jsv \<Rightarrow> opts \<Rightarrow> state \<Rightarrow> result" where
  "u_setBoth this key val options s =
     (case val of
        None \<Rightarrow> Ret (Return None) s
      | Some x \<Rightarrow>
          (case parseTTL this (o_ttl options) of
             Inl err \<Rightarrow> Ret (Throw err) s
           | Inr ttl \<Rightarrow>
               (case apply_fn (o_process options) val of
                  Inl err \<Rightarrow> Ret (Throw err) s
                | Inr localVal \<Rightarrow>
                    bind (u_set this key val ttl (now s) s) (K_setBoth localVal)
                      (u_setBoth_k localVal))))"

text \<open>The \<^verbatim>\<open>catch\<close> block of \<^verbatim>\<open>set\<close>, before and after \<^verbatim>\<open>await this._del(key)\<close>.\<close>

definition set_catch_k :: "cache \<Rightarrow> key \<Rightarrow> error \<Rightarrow> outcome \<Rightarrow> state \<Rightarrow> result" where
  "set_catch_k this key err out s =
     (case out of
        Throw e \<Rightarrow> Ret (Throw e) s
      | Return x \<Rightarrow> (let (r, s1) = u_setting this key DELETE s in Ret (Throw err) s1))"

definition set_catch :: "cache \<Rightarrow> key \<Rightarrow> error \<Rightarrow> state \<Rightarrow> result" where
  "set_catch this key err s =
     bind (u_del this (One key) (log_error (LogSetFailed key err) s)) (K_set_catch key err)
       (set_catch_k this key err)"

text \<open>
  \<^verbatim>\<open>set\<close> after \<^verbatim>\<open>await this._setBoth(...)\<close>: \<^verbatim>\<open>ctx.result\<close> is assigned, the entry of
  the map removed, and \<^verbatim>\<open>true\<close> returned.
\<close>

definition set_done_k :: "cache \<Rightarrow> key \<Rightarrow> nat \<Rightarrow> outcome \<Rightarrow> state \<Rightarrow> result" where
  "set_done_k this key ctx out s =
     (case out of
        Throw e \<Rightarrow> set_catch this key e s
      | Return localVal \<Rightarrow>
          (let s1 = s\<lparr>ctxs := (ctxs s)(ctx := (ctxs s ctx)\<lparr>ctx_result := localVal\<rparr>)\<rparr>;
               (r, s2) = u_setting this key DELETE s1
           in Ret (Return JTrue) s2))"

text \<open>\<^verbatim>\<open>set\<close> after \<^verbatim>\<open>await value\<close>, for a value that is a promise.\<close>

definition set_resolved_k :: "cache \<Rightarrow> key \<Rightarrow> opts \<Rightarrow> nat \<Rightarrow> outcome \<Rightarrow> state \<Rightarrow> result" where
  "set_resolved_k this key options ctx out s =
     (case out of
        Throw e \<Rightarrow> set_catch this key e s
      | Return resolvedValue \<Rightarrow>
          bind (u_setBoth this key resolvedValue options s) (K_set_done key ctx)
            (set_done_k this key ctx))"

text \<open>\<^verbatim>\<open>set\<close> on a value that is not a function, in the order of the source's tests.\<close>

definition set_direct :: "cache \<Rightarrow> key \<Rightarrow> direct \<Rightarrow> opts \<Rightarrow> nat \<Rightarrow> state \<Rightarrow> result" where
  "set_direct this key val options ctx s =
     (case val of
        Thenable p \<Rightarrow>
          (let (r, s1) = u_setting this key (Store p) s
           in Susp (OnPromise p) [K_set_resolved key options ctx] s1)
      | Undefined \<Rightarrow> Ret (Return JFalse) (log_error (LogSetUndefined key) s)
      | Plain x \<Rightarrow>
          (let (p, s1) = new_promise (Fulfilled (Some x)) s;
               (r, s2) = u_setting this key (Store p) s1
           in bind (u_setBoth this key (Some x) options s2) (K_set_done key ctx)
                (set_done_k this key ctx)))"

text \<open>
  \<^verbatim>\<open>set(key, value, options, ctx)\<close>. A function is called (inside the \<^verbatim>\<open>try\<close>) and
  \<^verbatim>\<open>set\<close> runs again on what it gave.
\<close>

definition set_entry :: "cache \<Rightarrow> key \<Rightarrow> value \<Rightarrow> opts \<Rightarrow> nat \<Rightarrow> state \<Rightarrow> result" where
  "set_entry this key val options ctx s =
     (case val of
        Direct d \<Rightarrow> set_direct this key d options ctx s
      | Producer f r \<Rightarrow>
          (let s1 = s\<lparr>calls := calls s @ [f]\<rparr>
           in case r of
                Throws e \<Rightarrow> set_catch this key e s1
              | Gives d \<Rightarrow> set_direct this key d options ctx s1))"

subsection \<open>getOrSet without staleTTL\<close>

text \<open>\<^verbatim>\<open>(ctx.result === undefined) ? options.default : ctx.result\<close>, after \<^verbatim>\<open>await this.set(...)\<close>.\<close>

definition result_or_default_k :: "opts \<Rightarrow> nat \<Rightarrow> outcome \<Rightarrow> state \<Rightarrow> result" where
  "result_or_default_k options ctx out s =
     (case out of
        Throw e \<Rightarrow> Ret (Throw e) s
      | Return x \<Rightarrow>
          Ret (Return (if ctx_result (ctxs s ctx) = None then o_default options
                       else ctx_result (ctxs s ctx))) s)"

definition u_getOrSet_k1 :: "cache \<Rightarrow> key \<Rightarrow> value \<Rightarrow> opts \<Rightarrow> outcome \<Rightarrow> state \<Rightarrow> result" where
  "u_getOrSet_k1 this key val options out s =
     (case out of
        Throw e \<Rightarrow> Ret (Throw e) s
      | Return existingValue \<Rightarrow>
          if existingValue \<noteq> None then Ret (Return existingValue) s
          else if val = Direct Undefined then Ret (Return (o_default options)) s
          else (let (ctx, s1) = new_ctx None s
                in bind (set_entry this key val options ctx s1) (K_result_or_default options ctx)
                     (result_or_default_k options ctx)))"

definition u_getOrSet :: "cache \<Rightarrow> key \<Rightarrow> value \<Rightarrow> opts \<Rightarrow> state \<Rightarrow> result" where
  "u_getOrSet this key val options s =
     (let (ctx, s1) = new_ctx None s
      in bind (getStale this key None options ctx s1) (K_getOrSet1 key val options)
           (u_getOrSet_k1 this key val options))"

text \<open>\<^verbatim>\<open>_withDefaultOpts(promise, opts)\<close> after \<^verbatim>\<open>await promise\<close>.\<close>

definition withDefaultOpts_k :: "opts \<Rightarrow> outcome \<Rightarrow> state \<Rightarrow> result" where
  "withDefaultOpts_k options out s =
     (case out of
        Throw e \<Rightarrow> Ret (Throw e) s
      | Return val \<Rightarrow>
          if val = None then Ret (Return (o_default options)) s
          else (case apply_fn (o_process options) val of
                  Inl err \<Rightarrow> Ret (Throw err) s
                | Inr x \<Rightarrow> Ret (Return x) s))"

definition withDefaultOpts :: "direct \<Rightarrow> opts \<Rightarrow> state \<Rightarrow> result" where
  "withDefaultOpts val options s =
     (case val of
        Thenable p \<Rightarrow> Susp (OnPromise p) [K_withDefaultOpts options] s
      | Undefined \<Rightarrow> withDefaultOpts_k options (Return None) s
      | Plain x \<Rightarrow> withDefaultOpts_k options (Return (Some x)) s)"

text \<open>The bypassed cache: the value is computed and returned, nothing is stored.\<close>

definition bypassed :: "value \<Rightarrow> opts \<Rightarrow> state \<Rightarrow> result" where
  "bypassed val options s =
     (case val of
        Producer f r \<Rightarrow>
          (let s1 = s\<lparr>calls := calls s @ [f]\<rparr>
           in case r of
                Throws e \<Rightarrow> Ret (Throw e) s1
              | Gives d \<Rightarrow> withDefaultOpts d options s1)
      | Direct d \<Rightarrow> withDefaultOpts d options s)"

definition u_setWithCheck :: "cache \<Rightarrow> key \<Rightarrow> value \<Rightarrow> opts \<Rightarrow> state \<Rightarrow> result" where
  "u_setWithCheck this key val options s =
     (case fst (u_setting this key Lookup s) of
        Some settingPromise \<Rightarrow> Susp (OnPromise settingPromise) [K_withDefaultOpts options] s
      | None \<Rightarrow>
          (let (setCtx, s1) = new_ctx None s
           in bind (set_entry this key val options setCtx s1) (K_result_or_default options setCtx)
                (result_or_default_k options setCtx)))"

text \<open>
  \<^verbatim>\<open>getOrSet\<close> after \<^verbatim>\<open>await promise\<close>: the entry of the map is removed and the result
  returned. When the promise rejects, the \<^verbatim>\<open>await\<close> throws and the removal does not run.
\<close>

definition getOrSet_tail_k :: "cache \<Rightarrow> key \<Rightarrow> outcome \<Rightarrow> state \<Rightarrow> result" where
  "getOrSet_tail_k this key out s =
     (case out of
        Throw e \<Rightarrow> Ret (Throw e) s
      | Return res \<Rightarrow> (let (r, s1) = u_getOrSetting this key DELETE s in Ret (Return res) s1))"

subsection \<open>getOrSet with staleTTL\<close>

text \<open>
  The callback given to \<^verbatim>\<open>setTimeout\<close> by \<^verbatim>\<open>_setBackground\<close>: \<^verbatim>\<open>set\<close> is run with its
  rejection caught and dropped, then the entry of the map is removed.
\<close>

definition background_done_k :: "cache \<Rightarrow> key \<Rightarrow> outcome \<Rightarrow> state \<Rightarrow> result" where
  "background_done_k this key out s =
     (let (r, s1) = u_getOrSettingStale this key DELETE s in Ret (Return None) s1)"

definition background_k :: "cache \<Rightarrow> key \<Rightarrow> value \<Rightarrow> opts \<Rightarrow> outcome \<Rightarrow> state \<Rightarrow> result" where
  "background_k this key val options out s =
     (let (ctx, s1) = new_ctx None s
      in bind (set_entry this key val options ctx s1) (K_background_done key)
           (background_done_k this key))"

definition u_setBackground :: "cache \<Rightarrow> key \<Rightarrow> value \<Rightarrow> opts \<Rightarrow> state \<Rightarrow> state" where
  "u_setBackground this key val options s =
     (case fst (u_getOrSettingStale this key Lookup s) of
        Some b \<Rightarrow> s
      | None \<Rightarrow>
          (let (r, s1) = u_getOrSettingStale this key (Store True) s
           in add_task OnTimer [K_background key val options] Discard s1))"

text \<open>
  \<^verbatim>\<open>_getOrSetStale\<close> after \<^verbatim>\<open>await this.getStale(key, undefined, options, ctx)\<close>.
  \<open>generateInBg\<close>: \<open>Some True\<close> in the background, \<open>Some False\<close> in the foreground,
  \<open>None\<close> (\<^verbatim>\<open>null\<close>) not at all.
\<close>

definition generateInBg :: "opts \<Rightarrow> jsv \<Rightarrow> bool \<Rightarrow> bool option" where
  "generateInBg options existingValue isStale =
     (if existingValue = None
      then (if o_requireResult options \<noteq> Some False \<or> o_freshResult options
            then Some False else Some True)
      else if isStale
      then (if o_freshResult options then Some False else Some True)
      else None)"

definition u_getOrSetStale_k ::
  "cache \<Rightarrow> key \<Rightarrow> value \<Rightarrow> opts \<Rightarrow> nat \<Rightarrow> outcome \<Rightarrow> state \<Rightarrow> result" where
  "u_getOrSetStale_k this key val options ctx out s =
     (case out of
        Throw e \<Rightarrow> Ret (Throw e) s
      | Return existingValue \<Rightarrow>
          (case generateInBg options existingValue (ctx_isStale (ctxs s ctx)) of
             Some False \<Rightarrow> u_setWithCheck this key val options s
           | Some True \<Rightarrow>
               Ret (Return (if existingValue = None then o_default options else existingValue))
                 (u_setBackground this key val options s)
           | None \<Rightarrow>
               Ret (Return (if existingValue = None then o_default options else existingValue)) s))"

definition u_getOrSetStale :: "cache \<Rightarrow> key \<Rightarrow> value \<Rightarrow> opts \<Rightarrow> state \<Rightarrow> result" where
  "u_getOrSetStale this key val options s =
     (if isBypassed this then bypassed val options s
      else if o_forceUpdate options then u_setWithCheck this key val options s
      else (case parseTTL this (o_staleTTL options) of
              Inl err \<Rightarrow> Ret (Throw err) s
            | Inr staleTTL \<Rightarrow>
                (let (ctx, s1) = new_ctx staleTTL s
                 in bind (getStale this key None options ctx s1)
                      (K_getOrSetStale key val options ctx)
                      (u_getOrSetStale_k this key val options ctx))))"

subsection \<open>getOrSet\<close>

definition state_of :: "result \<Rightarrow> state" where
  "state_of r = (case r of Ret out s \<Rightarrow> s | Susp w fs s \<Rightarrow> s)"

definition getOrSet :: "cache \<Rightarrow> key \<Rightarrow> value \<Rightarrow> opts \<Rightarrow> state \<Rightarrow> result" where
  "getOrSet this key val options s =
     (if truthy_ttl (o_staleTTL options) then u_getOrSetStale this key val options s
      else case fst (u_getOrSetting this key Lookup s) of
        Some settingPromise \<Rightarrow> Susp (OnPromise settingPromise) [K_withDefaultOpts options] s
      | None \<Rightarrow>
          if isBypassed this then bypassed val options s
          else if o_forceUpdate options then u_setWithCheck this key val options s
          else (let body = u_getOrSet this key val options s;
                    (promise, s1) = new_promise Pending (state_of body);
                    (r, s2) = u_getOrSetting this key (Store promise) s1
                in case body of
                     Susp w fs s' \<Rightarrow> Susp w (fs @ [K_settle promise, K_getOrSet_tail key]) s2
                   | Ret out s' \<Rightarrow>
                       bind (settle_k promise out s2) (K_getOrSet_tail key)
                         (getOrSet_tail_k this key)))"

section \<open>Coordinator: the event loop\<close>

fun run_frame :: "cache \<Rightarrow> frame \<Rightarrow> signal \<Rightarrow> state \<Rightarrow> result" where
  "run_frame this (K_getStale_read key options ctx) sig s = getStale_read_k this key options ctx sig s"
| "run_frame this (K_settle p) sig s = settle_k p (outcome_of sig) s"
| "run_frame this (K_getStale_tail key d) sig s = getStale_tail_k this key d (outcome_of sig) s"
| "run_frame this (K_getStale_shared d) sig s = withDefault_k d (outcome_of sig) s"
| "run_frame this (K_withDefault d) sig s = withDefault_k d (outcome_of sig) s"
| "run_frame this (K_withDefaultOpts options) sig s = withDefaultOpts_k options (outcome_of sig) s"
| "run_frame this K_del sig s = u_del_k (outcome_of sig) s"
| "run_frame this K_markStale sig s = u_markStale_k (outcome_of sig) s"
| "run_frame this K_set_io sig s = u_set_k (outcome_of sig) s"
| "run_frame this (K_setBoth localVal) sig s = u_setBoth_k localVal (outcome_of sig) s"
| "run_frame this (K_set_resolved key options ctx) sig s =
     set_resolved_k this key options ctx (outcome_of sig) s"
| "run_frame this (K_set_done key ctx) sig s = set_done_k this key ctx (outcome_of sig) s"
| "run_frame this (K_set_catch key err) sig s = set_catch_k this key err (outcome_of sig) s"
| "run_frame this (K_getOrSet1 key val options) sig s =
     u_getOrSet_k1 this key val options (outcome_of sig) s"
| "run_frame this (K_result_or_default options ctx) sig s =
     result_or_default_k options ctx (outcome_of sig) s"
| "run_frame this (K_getOrSet_tail key) sig s = getOrSet_tail_k this key (outcome_of sig) s"
| "run_frame this (K_getOrSetStale key val options ctx) sig s =
     u_getOrSetStale_k this key val options ctx (outcome_of sig) s"
| "run_frame this (K_background key val options) sig s =
     background_k this key val options (outcome_of sig) s"
| "run_frame this (K_background_done key) sig s = background_done_k this key (outcome_of sig) s"

text \<open>
  A resumed task runs its innermost continuation; when that returns, its outcome goes to
  the next one, until one suspends or the stack is empty.
\<close>

fun resume :: "cache \<Rightarrow> frame list \<Rightarrow> signal \<Rightarrow> state \<Rightarrow> result" where
  "resume this [] sig s = Ret (outcome_of sig) s"
| "resume this (f # fs) sig s =
     (case run_frame this f sig s of
        Ret out s' \<Rightarrow> resume this fs (Done out) s'
      | Susp w fs' s' \<Rightarrow> Susp w (fs' @ fs) s')"

text \<open>
  The backend, as the entries it holds. \<^verbatim>\<open>touch\<close> rewrites an entry that exists with
  the fields given (\<^verbatim>\<open>t ?? val.t\<close>, \<^verbatim>\<open>c ?? val.c\<close>) and the same value. A backend call
  succeeds or fails as a whole; a failed call changes nothing.
\<close>

definition touch_key ::
  "int option \<Rightarrow> int option \<Rightarrow> key \<Rightarrow> (key \<rightharpoonup> CacheValue) \<Rightarrow> (key \<rightharpoonup> CacheValue)" where
  "touch_key t c key st =
     (case st key of
        None \<Rightarrow> st
      | Some val \<Rightarrow>
          st(key \<mapsto> \<lparr>cv_v = cv_v val,
                      cv_c = (case c of Some x \<Rightarrow> x | None \<Rightarrow> cv_c val),
                      cv_t = (case t of Some x \<Rightarrow> Some x | None \<Rightarrow> cv_t val)\<rparr>))"

datatype io_outcome = Succeed | Fail error

definition perform_io :: "io \<Rightarrow> io_outcome \<Rightarrow> state \<Rightarrow> signal \<times> state" where
  "perform_io req oc s =
     (case oc of
        Fail e \<Rightarrow> (Done (Throw e), s)
      | Succeed \<Rightarrow>
          (case req of
             BackendGet k \<Rightarrow> (IoGot (store s k), s)
           | BackendSet k x t c \<Rightarrow>
               (Done (Return None), s\<lparr>store := (store s)(k \<mapsto> \<lparr>cv_v = x, cv_c = c, cv_t = t\<rparr>)\<rparr>)
           | BackendDel ks \<Rightarrow>
               (Done (Return None), s\<lparr>store := foldr (\<lambda>k m. m(k := None)) ks (store s)\<rparr>)
           | BackendTouch ks t c \<Rightarrow>
               (Done (Return None), s\<lparr>store := foldr (touch_key t c) ks (store s)\<rparr>)))"

text \<open>The calls of the public methods.\<close>

datatype request =
    Req_get key jsv opts
  | Req_getStale key jsv opts
  | Req_set key "value" opts
  | Req_getOrSet key "value" opts
  | Req_del keyarg
  | Req_markStale keyarg

definition start :: "cache \<Rightarrow> request \<Rightarrow> state \<Rightarrow> result" where
  "start this req s =
     (case req of
        Req_get key d options \<Rightarrow> get this key d options s
      | Req_getStale key d options \<Rightarrow>
          (let (ctx, s1) = new_ctx None s in getStale this key d options ctx s1)
      | Req_set key val options \<Rightarrow>
          (let (ctx, s1) = new_ctx None s in set_entry this key val options ctx s1)
      | Req_getOrSet key val options \<Rightarrow> getOrSet this key val options s
      | Req_del key \<Rightarrow> del this key s
      | Req_markStale key \<Rightarrow> markStale this key s)"

definition deliver :: "target \<Rightarrow> outcome \<Rightarrow> state \<Rightarrow> state" where
  "deliver tg out s =
     (case tg of Report cid \<Rightarrow> s\<lparr>results := (results s)(cid \<mapsto> out)\<rparr> | Discard \<Rightarrow> s)"

text \<open>A task that returned hands over its outcome; one that suspended is kept under its number.\<close>

definition finish :: "nat \<Rightarrow> target \<Rightarrow> result \<Rightarrow> state" where
  "finish tid tg r =
     (case r of
        Ret out s \<Rightarrow> deliver tg out s
      | Susp w fs s \<Rightarrow> s\<lparr>tasks := (tasks s)(tid \<mapsto> \<lparr>waiting = w, stack = fs, target = tg\<rparr>)\<rparr>)"

text \<open>
  The events: a caller calls a method (\<open>Call cid req\<close>); the backend call a task waits
  for completes (\<open>IoDone\<close>); a task that awaits a settled promise goes on (\<open>Wake\<close>); a
  caller's promise settles (\<open>Settle\<close>); a timer fires (\<open>Fire\<close>); the clock moves
  (\<open>Clock\<close>). An event that names no task, or a task that waits for something else, or a
  promise that is still pending, changes nothing.
\<close>

datatype event =
    Call nat request
  | IoDone nat io_outcome
  | Wake nat
  | Settle nat outcome
  | Fire nat
  | Clock int

definition continue :: "cache \<Rightarrow> nat \<Rightarrow> task \<Rightarrow> signal \<Rightarrow> state \<Rightarrow> state" where
  "continue this tid tk sig s =
     finish tid (target tk) (resume this (stack tk) sig (s\<lparr>tasks := (tasks s)(tid := None)\<rparr>))"

definition step :: "cache \<Rightarrow> event \<Rightarrow> state \<Rightarrow> state" where
  "step this ev s =
     (case ev of
        Call cid req \<Rightarrow>
          finish (next_tid s) (Report cid) (start this req (s\<lparr>next_tid := Suc (next_tid s)\<rparr>))
      | IoDone tid oc \<Rightarrow>
          (case tasks s tid of
             None \<Rightarrow> s
           | Some tk \<Rightarrow>
               (case waiting tk of
                  OnIO req \<Rightarrow> (let (sig, s1) = perform_io req oc s in continue this tid tk sig s1)
                | OnPromise p \<Rightarrow> s
                | OnTimer \<Rightarrow> s))
      | Wake tid \<Rightarrow>
          (case tasks s tid of
             None \<Rightarrow> s
           | Some tk \<Rightarrow>
               (case waiting tk of
                  OnPromise p \<Rightarrow>
                    (case promises s p of
                       Pending \<Rightarrow> s
                     | Fulfilled x \<Rightarrow> continue this tid tk (Done (Return x)) s
                     | Rejected e \<Rightarrow> continue this tid tk (Done (Throw e)) s)
                | OnIO req \<Rightarrow> s
                | OnTimer \<Rightarrow> s))
      | Settle n out \<Rightarrow> (if promises s (U n) = Pending then settle (U n) out s else s)
      | Fire tid \<Rightarrow>
          (case tasks s tid of
             None \<Rightarrow> s
           | Some tk \<Rightarrow>
               (case waiting tk of
                  OnTimer \<Rightarrow> continue this tid tk (Done (Return None)) s
                | OnIO req \<Rightarrow> s
                | OnPromise p \<Rightarrow> s))
      | Clock t \<Rightarrow> s\<lparr>now := t\<rparr>)"

fun run :: "cache \<Rightarrow> event list \<Rightarrow> state \<Rightarrow> state" where
  "run this [] s = s"
| "run this (ev # evs) s = run this evs (step this ev s)"

text \<open>A process that has just started: nothing in flight, the backend holding \<open>st\<close>.\<close>

definition init :: "(key \<rightharpoonup> CacheValue) \<Rightarrow> int \<Rightarrow> state" where
  "init st t =
     \<lparr>getting = Map.empty, setting = Map.empty, getOrSetting = Map.empty,
      getOrSettingStale = Map.empty, promises = (\<lambda>p. Pending), next_pid = 0,
      ctxs = (\<lambda>n. \<lparr>ctx_staleTTL = None, ctx_isStale = False, ctx_result = None\<rparr>), next_ctx = 0,
      store = st, now = t, tasks = Map.empty, next_tid = 0, calls = [], logged = [],
      results = Map.empty\<rparr>"

text \<open>\<^verbatim>\<open>new FileCache(prefix)\<close>: the key path is \<^verbatim>\<open>[CACHE_ID, GLOBAL_PREFIX, prefix].join(sep)\<close>.\<close>

definition new_cache :: "string \<Rightarrow> (string \<Rightarrow> error + int) \<Rightarrow> cache" where
  "new_cache pre ts =
     \<lparr>prefix = pre, keyPath = join KEY_SEPARATOR [''HC'', ''a'', pre],
      separator = KEY_SEPARATOR, inst_bypass = None, class_bypass = False, timestring = ts\<rparr>"

text \<open>The options \<^verbatim>\<open>{}\<close>.\<close>

definition no_opts :: opts where
  "no_opts =
     \<lparr>o_ttl = None, o_staleTTL = None, o_requireResult = None, o_freshResult = False,
      o_forceUpdate = False, o_fromJSON = None, o_process = None, o_default = None\<rparr>"

section \<open>Concurrent callers of getOrSet\<close>

text \<open>
  A schedule of concurrent calls: every call of the schedule makes the same request, at a
  moment when the first call (\<open>c0\<close>) has not settled yet. \<open>callers\<close> lists the callers of
  a schedule.
\<close>

fun overlapping :: "cache \<Rightarrow> nat \<Rightarrow> request \<Rightarrow> event list \<Rightarrow> state \<Rightarrow> bool" where
  "overlapping this c0 req [] s = True"
| "overlapping this c0 req (ev # evs) s =
     ((case ev of Call c q \<Rightarrow> q = req \<and> results s c0 = None | _ \<Rightarrow> True)
      \<and> overlapping this c0 req evs (step this ev s))"

fun callers :: "event list \<Rightarrow> nat list" where
  "callers [] = []"
| "callers (ev # evs) = (case ev of Call c q \<Rightarrow> c # callers evs | _ \<Rightarrow> callers evs)"

text \<open>
  The states that the calls of one request go through on a cache that had nothing in
  flight. The first caller's task (the leader, task 0) reads the backend, then waits for
  the producer's promise, writes, or deletes after a failure; its promise is \<open>I 1\<close>. Every
  other task is a follower: it awaits \<open>I 1\<close> and then applies \<open>_withDefaultOpts\<close>. The
  set \<open>C\<close> holds the callers that came after the first: each of them has its result or a
  task that will report to it.
\<close>

definition is_follower :: "opts \<Rightarrow> task option \<Rightarrow> bool" where
  "is_follower options t \<longleftrightarrow>
     (case t of
        None \<Rightarrow> True
      | Some tk \<Rightarrow>
          waiting tk = OnPromise (I 1) \<and> stack tk = [K_withDefaultOpts options]
          \<and> (\<exists>c. target tk = Report c))"

definition waits_for :: "(nat \<rightharpoonup> task) \<Rightarrow> nat \<Rightarrow> bool" where
  "waits_for m c \<longleftrightarrow> (\<exists>tid tk. tid \<noteq> 0 \<and> m tid = Some tk \<and> target tk = Report c)"

definition others_follow :: "opts \<Rightarrow> nat set \<Rightarrow> state \<Rightarrow> bool" where
  "others_follow options C s \<longleftrightarrow>
     0 < next_tid s
     \<and> (\<forall>tid. tid \<noteq> 0 \<longrightarrow> is_follower options (tasks s tid))
     \<and> (\<forall>tid. next_tid s \<le> tid \<longrightarrow> tasks s tid = None)
     \<and> (\<forall>c \<in> C. results s c \<noteq> None \<or> waits_for (tasks s) c)"

definition in_flight :: "cache \<Rightarrow> key \<Rightarrow> opts \<Rightarrow> nat set \<Rightarrow> state \<Rightarrow> bool" where
  "in_flight this key options C s \<longleftrightarrow>
     getOrSetting s (u_key this key) = Some (I 1) \<and> promises s (I 1) = Pending
     \<and> results s = Map.empty \<and> others_follow options C s"

definition leader :: "state \<Rightarrow> nat \<Rightarrow> wait \<Rightarrow> frame list \<Rightarrow> bool" where
  "leader s c0 w fs \<longleftrightarrow> tasks s 0 = Some \<lparr>waiting = w, stack = fs, target = Report c0\<rparr>"

definition tail_frames :: "key \<Rightarrow> opts \<Rightarrow> frame list" where
  "tail_frames key options = [K_result_or_default options 1, K_settle (I 1), K_getOrSet_tail key]"

definition reading ::
  "cache \<Rightarrow> key \<Rightarrow> nat \<Rightarrow> answer \<Rightarrow> opts \<Rightarrow> nat \<Rightarrow> nat set \<Rightarrow> state \<Rightarrow> bool" where
  "reading this key f r options c0 C s \<longleftrightarrow>
     in_flight this key options C s
     \<and> leader s c0 (OnIO (BackendGet (u_key this key)))
         [K_getStale_read key options 0, K_settle (I 0), K_getStale_tail key None,
          K_getOrSet1 key (Producer f r) options, K_settle (I 1), K_getOrSet_tail key]
     \<and> calls s = [] \<and> store s (u_key this key) = None \<and> next_pid s = 2 \<and> next_ctx s = 1"

definition producing ::
  "cache \<Rightarrow> key \<Rightarrow> nat \<Rightarrow> answer \<Rightarrow> opts \<Rightarrow> nat \<Rightarrow> nat set \<Rightarrow> state \<Rightarrow> bool" where
  "producing this key f r options c0 C s \<longleftrightarrow>
     in_flight this key options C s
     \<and> (\<exists>p. r = Gives (Thenable p)
            \<and> leader s c0 (OnPromise p) (K_set_resolved key options 1 # tail_frames key options))
     \<and> calls s = [f] \<and> ctx_result (ctxs s 1) = None"

definition writing ::
  "cache \<Rightarrow> key \<Rightarrow> nat \<Rightarrow> answer \<Rightarrow> opts \<Rightarrow> nat \<Rightarrow> nat set \<Rightarrow> state \<Rightarrow> bool" where
  "writing this key f r options c0 C s \<longleftrightarrow>
     in_flight this key options C s
     \<and> (\<exists>x ttl c. leader s c0 (OnIO (BackendSet (u_key this key) x ttl c))
            ([K_set_io, K_setBoth (Some x), K_set_done key 1] @ tail_frames key options)
          \<and> (\<forall>x'. r = Gives (Plain x') \<longrightarrow> x = x'))
     \<and> calls s = [f]"

definition failing ::
  "cache \<Rightarrow> key \<Rightarrow> nat \<Rightarrow> answer \<Rightarrow> opts \<Rightarrow> nat \<Rightarrow> nat set \<Rightarrow> state \<Rightarrow> bool" where
  "failing this key f r options c0 C s \<longleftrightarrow>
     in_flight this key options C s
     \<and> (\<exists>e. leader s c0 (OnIO (BackendDel [u_key this key]))
            ([K_del, K_set_catch key e] @ tail_frames key options))
     \<and> (\<forall>x. r = Gives (Plain x) \<longrightarrow> (\<exists>e. parseTTL this (o_ttl options) = Inl e))
     \<and> calls s = [f]"

definition pstate_of :: "outcome \<Rightarrow> pstate" where
  "pstate_of out = (case out of Return x \<Rightarrow> Fulfilled x | Throw e \<Rightarrow> Rejected e)"

definition settled_with ::
  "cache \<Rightarrow> key \<Rightarrow> nat \<Rightarrow> answer \<Rightarrow> opts \<Rightarrow> nat \<Rightarrow> nat set \<Rightarrow> outcome \<Rightarrow> state \<Rightarrow> bool" where
  "settled_with this key f r options c0 C out s \<longleftrightarrow>
     others_follow options C s \<and> tasks s 0 = None \<and> calls s = [f]
     \<and> results s c0 = Some out \<and> promises s (I 1) = pstate_of out
     \<and> (out = Return None \<longrightarrow> o_default options = None)
     \<and> (\<forall>c. results s c = None \<or> results s c = Some out)
     \<and> (\<forall>x ttl. r = Gives (Plain x) \<and> parseTTL this (o_ttl options) = Inr ttl
            \<longrightarrow> out = Return (Some x))"

definition settled ::
  "cache \<Rightarrow> key \<Rightarrow> nat \<Rightarrow> answer \<Rightarrow> opts \<Rightarrow> nat \<Rightarrow> nat set \<Rightarrow> state \<Rightarrow> bool" where
  "settled this key f r options c0 C s \<longleftrightarrow>
     (\<exists>out. settled_with this key f r options c0 C out s)"

definition dog_inv ::
  "cache \<Rightarrow> key \<Rightarrow> nat \<Rightarrow> answer \<Rightarrow> opts \<Rightarrow> nat \<Rightarrow> nat set \<Rightarrow> state \<Rightarrow> bool" where
  "dog_inv this key f r options c0 C s \<longleftrightarrow>
     reading this key f r options c0 C s \<or> producing this key f r options c0 C s
     \<or> writing this key f r options c0 C s \<or> failing this key f r options c0 C s
     \<or> settled this key f r options c0 C s"

text \<open>
  The events that the calls still wait for: the leader's backend read answers (\<open>oc1\<close>),
  the producer's promise settles (\<open>po\<close>) and the leader resumes, the leader's backend
  write or delete answers (\<open>oc2\<close>), and every follower is resumed. \<open>promise_of\<close> is the
  promise that the producer returned, if it returned one.
\<close>

definition promise_of :: "answer \<Rightarrow> nat" where
  "promise_of r = (case r of Gives (Thenable (U n)) \<Rightarrow> n | _ \<Rightarrow> 0)"

definition leader_events :: "answer \<Rightarrow> io_outcome \<Rightarrow> outcome \<Rightarrow> io_outcome \<Rightarrow> event list" where
  "leader_events r oc1 po oc2 = [IoDone 0 oc1, Settle (promise_of r) po, Wake 0, IoDone 0 oc2]"

definition completion ::
  "cache \<Rightarrow> answer \<Rightarrow> io_outcome \<Rightarrow> outcome \<Rightarrow> io_outcome \<Rightarrow> state \<Rightarrow> event list" where
  "completion this r oc1 po oc2 s =
     leader_events r oc1 po oc2
     @ map Wake [1 ..< next_tid (run this (leader_events r oc1 po oc2) s)]"

section \<open>The value given to set\<close>

text \<open>
  What the value given to \<open>set\<close> resolves to: what a producer throws, a plain value, or
  the outcome \<open>po\<close> of a promise. Resolving and preparing the write fail with \<open>e\<close> when
  the value resolves to a throw of \<open>e\<close>, or to a value and \<^verbatim>\<open>parseTTL\<close> or, after it,
  \<open>process\<close> throws \<open>e\<close>; otherwise a value \<open>x\<close> is written with the parsed \<open>ttl\<close>.
\<close>

abbreviation resolved :: "answer \<Rightarrow> outcome \<Rightarrow> outcome" where
  "resolved r po \<equiv>
     (case r of
        Throws e \<Rightarrow> Throw e
      | Gives d \<Rightarrow> (case d of Undefined \<Rightarrow> Return None | Plain x \<Rightarrow> Return (Some x)
                    | Thenable p \<Rightarrow> po))"

abbreviation set_fails :: "cache \<Rightarrow> opts \<Rightarrow> outcome \<Rightarrow> error \<Rightarrow> bool" where
  "set_fails this options out e \<equiv>
     out = Throw e
     \<or> (\<exists>x. out = Return (Some x)
            \<and> (parseTTL this (o_ttl options) = Inl e
               \<or> (\<exists>ttl. parseTTL this (o_ttl options) = Inr ttl
                        \<and> apply_fn (o_process options) (Some x) = Inl e)))"

abbreviation set_writes :: "cache \<Rightarrow> opts \<Rightarrow> outcome \<Rightarrow> json \<Rightarrow> int option \<Rightarrow> jsv \<Rightarrow> bool" where
  "set_writes this options out x ttl lv \<equiv>
     out = Return (Some x) \<and> parseTTL this (o_ttl options) = Inr ttl
     \<and> apply_fn (o_process options) (Some x) = Inr lv"

section \<open>Example inputs\<close>

text \<open>
  A stand-in for \<^verbatim>\<open>timestring\<close>: it knows one minute and one second and throws on every
  other string.
\<close>

definition units :: "string \<Rightarrow> error + int" where
  "units str =
     (if str = ''1m'' then Inr 60000 else if str = ''1s'' then Inr 1000
      else Inl ''unit not supported'')"

text \<open>A cache with the prefix \<open>api\<close>, options with a \<open>staleTTL\<close>, and a stored entry.\<close>

definition this0 :: cache where
  "this0 = new_cache ''api'' units"

definition swr_opts :: opts where
  "swr_opts = no_opts\<lparr>o_ttl := Some (Ms 60000), o_staleTTL := Some (Ms 100),
                       o_default := Some (JStr ''none'')\<rparr>"

text \<open>Options whose \<open>ttl\<close> is a string that \<^verbatim>\<open>timestring\<close> cannot parse.\<close>

definition bad_ttl :: opts where
  "bad_ttl = no_opts\<lparr>o_ttl := Some (Str ''abc'')\<rparr>"

definition failing_process :: opts where
  "failing_process = no_opts\<lparr>o_process := Some (\<lambda>x. Inl ''bad'')\<rparr>"

text \<open>A \<open>process\<close> option that is not idempotent: it adds one to a number.\<close>

definition incrementing :: opts where
  "incrementing =
     no_opts\<lparr>o_process := Some (\<lambda>x. case x of Some (JNum n) \<Rightarrow> Inr (Some (JNum (n + 1)))
                                          | _ \<Rightarrow> Inr x)\<rparr>"

definition old_entry :: CacheValue where
  "old_entry = \<lparr>cv_v = JNum 1, cv_c = 500, cv_t = None\<rparr>"

definition ttl_entry :: CacheValue where
  "ttl_entry = \<lparr>cv_v = JNum 1, cv_c = 999000, cv_t = Some 60000\<rparr>"

section \<open>Properties of the storage backend\<close>

lemma Buffer_from_envelope_0: "Buffer_from (stringify_envelope str t c v) ! 0 = 0x7B"
  by (simp add: stringify_envelope_def Buffer_from_def)

lemma four_elems:
  assumes "64 \<le> length (b :: 'a list)"
  shows "\<exists>x0 x1 x2 x3 rest. b = x0 # x1 # x2 # x3 # rest"
proof -
  have "Suc (Suc (Suc (Suc 0))) \<le> length b" using assms by simp
  then show ?thesis unfolding Suc_le_length_iff by blast
qed

lemma magic_sniff:
  assumes "64 \<le> length b"
  shows "take 4 b = zstd_magic \<longleftrightarrow>
      b ! 3 = 0xFD \<and> b ! 2 = 0x2F \<and> b ! 1 = 0xB5 \<and> b ! 0 = 0x28"
proof -
  obtain x0 x1 x2 x3 rest where b: "b = x0 # x1 # x2 # x3 # rest"
    using four_elems[OF assms] by blast
  have t: "take 4 b = [x0, x1, x2, x3]" by (simp add: b numeral_eq_Suc)
  have n: "b ! 0 = x0" "b ! 1 = x1" "b ! 2 = x2" "b ! 3 = x3" by (simp_all add: b numeral_eq_Suc)
  show ?thesis unfolding t n zstd_magic_def by auto
qed

text \<open>
  Claim C7. The backend's set compresses the serialized envelope if and only if it has at
  least 256 bytes. On read, a buffer shorter than 64 bytes is returned raw whatever its
  content; a buffer of 64 bytes or more is decompressed if and only if its first four bytes
  are the zstd magic number, and returned raw otherwise.
\<close>

theorem compress_decompress_thresholds:
  "(compressMaybe b = Compress b 3 \<longleftrightarrow> 256 \<le> length b)
   \<and> (compressMaybe b = Raw b \<longleftrightarrow> length b < 256)
   \<and> (set_payload str t c v = Compress (Buffer_from (stringify_envelope str t c v)) 3
        \<longleftrightarrow> 256 \<le> length (Buffer_from (stringify_envelope str t c v)))
   \<and> (length b < 64 \<longrightarrow> decompressMaybe b = Raw b)
   \<and> (64 \<le> length b \<longrightarrow>
        (decompressMaybe b = Decompress b \<longleftrightarrow> take 4 b = zstd_magic)
        \<and> (decompressMaybe b = Raw b \<longleftrightarrow> take 4 b \<noteq> zstd_magic))"
proof -
  have c1: "compressMaybe x = Compress x 3 \<longleftrightarrow> 256 \<le> length x" for x
    by (simp add: compressMaybe_def)
  have c2: "compressMaybe b = Raw b \<longleftrightarrow> length b < 256"
    by (simp add: compressMaybe_def)
  have d1: "length b < 64 \<longrightarrow> decompressMaybe b = Raw b"
    by (simp add: decompressMaybe_def)
  have d2: "64 \<le> length b \<longrightarrow>
        (decompressMaybe b = Decompress b \<longleftrightarrow> take 4 b = zstd_magic)
        \<and> (decompressMaybe b = Raw b \<longleftrightarrow> take 4 b \<noteq> zstd_magic)"
    using magic_sniff[of b] by (simp add: decompressMaybe_def)
  show ?thesis using c1 c2 d1 d2 unfolding set_payload_def by blast
qed

text \<open>
  Claim C7, at concrete buffers: 64 bytes that start with the magic number are
  decompressed, 64 zero bytes and the empty buffer are returned raw.
\<close>

theorem compress_decompress_thresholds_witness:
  "64 \<le> length (zstd_magic @ replicate 60 (0 :: 8 word))
   \<and> decompressMaybe (zstd_magic @ replicate 60 0) = Decompress (zstd_magic @ replicate 60 0)
   \<and> decompressMaybe (replicate 64 0) = Raw (replicate 64 0)
   \<and> length ([] :: buffer) < 64 \<and> decompressMaybe [] = Raw []"
proof -
  have m: "take 4 (zstd_magic @ replicate 60 (0 :: 8 word)) = zstd_magic"
    by (simp add: zstd_magic_def)
  have z: "take 4 (replicate 64 (0 :: 8 word)) \<noteq> zstd_magic"
  proof
    assume "take 4 (replicate 64 (0 :: 8 word)) = zstd_magic"
    then have "take 4 (replicate 64 (0 :: 8 word)) ! 0 = zstd_magic ! 0" by simp
    then show False by (simp add: zstd_magic_def)
  qed
  have l: "64 \<le> length (zstd_magic @ replicate 60 (0 :: 8 word))"
    by (simp add: zstd_magic_def)
  show ?thesis
    using compress_decompress_thresholds[of "zstd_magic @ replicate 60 0"]
      compress_decompress_thresholds[of "replicate 64 0"]
      compress_decompress_thresholds[of "[]"] m z l
    by simp
qed

text \<open>
  Claim C10. A payload that the backend's set stores uncompressed is the serialized
  envelope, shorter than 256 bytes; its first byte is 0x7B (an opening brace), which is not
  the first byte of the magic number (0x28), so on read \<open>decompressMaybe\<close> returns it raw:
  the decompression branch is not taken for it.
\<close>

theorem raw_payload_never_sniffed:
  assumes "set_payload str t c v = Raw b"
  shows "b = Buffer_from (stringify_envelope str t c v) \<and> length b < 256
         \<and> b ! 0 = 0x7B \<and> b ! 0 \<noteq> zstd_magic ! 0
         \<and> decompressMaybe b = Raw b"
proof -
  have b: "b = Buffer_from (stringify_envelope str t c v)" and len: "length b < 256"
    using assms by (simp_all add: set_payload_def compressMaybe_def split: if_splits)
  have first: "b ! 0 = 0x7B" unfolding b by (rule Buffer_from_envelope_0)
  have ne: "b ! 0 \<noteq> zstd_magic ! 0" unfolding first by (simp add: zstd_magic_def)
  have "decompressMaybe b = Raw b" using first by (simp add: decompressMaybe_def)
  then show ?thesis using b len first ne by blast
qed

text \<open>Claim C10, at the envelope with \<open>c\<close> and \<open>v\<close> and no \<open>t\<close>.\<close>

theorem raw_payload_never_sniffed_witness:
  "set_payload (\<lambda>j. ''1'') None (Some 5) (Some JNull)
     = Raw (Buffer_from (stringify_envelope (\<lambda>j. ''1'') None (Some 5) (Some JNull)))
   \<and> decompressMaybe (Buffer_from (stringify_envelope (\<lambda>j. ''1'') None (Some 5) (Some JNull)))
     = Raw (Buffer_from (stringify_envelope (\<lambda>j. ''1'') None (Some 5) (Some JNull)))"
proof -
  have h: "set_payload (\<lambda>j. ''1'') None (Some 5) (Some JNull)
     = Raw (Buffer_from (stringify_envelope (\<lambda>j. ''1'') None (Some 5) (Some JNull)))"
    by (simp add: set_payload_def compressMaybe_def stringify_envelope_def member_def Buffer_from_def)
  from raw_payload_never_sniffed[OF h] h show ?thesis by blast
qed

lemma split_acc_plain:
  "CHR 0x0B \<notin> set xs \<Longrightarrow> split_acc KEY_SEPARATOR acc xs = [rev acc @ xs]"
  by (induction xs arbitrary: acc) (auto simp: KEY_SEPARATOR_def)

lemma split_acc_sep:
  "CHR 0x0B \<notin> set xs \<Longrightarrow>
   split_acc KEY_SEPARATOR acc (xs @ KEY_SEPARATOR @ ys) = (rev acc @ xs) # split_acc KEY_SEPARATOR [] ys"
  by (induction xs arbitrary: acc) (auto simp: KEY_SEPARATOR_def)

lemma length_hash: "length (hash sha1 x) \<le> 10"
  by (simp add: hash_def)

lemma split_acc_nonempty: "split_acc sep acc xs \<noteq> []"
  by (induction sep acc xs rule: split_acc.induct) auto

lemma join_Cons: "ys \<noteq> [] \<Longrightarrow> join sep (x # ys) = x @ sep @ join sep ys"
  by (cases ys) simp_all

lemma join_append: "xs \<noteq> [] \<Longrightarrow> ys \<noteq> [] \<Longrightarrow> join sep (xs @ ys) = join sep xs @ sep @ join sep ys"
proof (induction xs)
  case Nil
  then show ?case by simp
next
  case (Cons x xs)
  show ?case
  proof (cases "xs = []")
    case True
    then show ?thesis using Cons.prems by (simp add: join_Cons)
  next
    case False
    then show ?thesis using Cons by (simp add: join_Cons)
  qed
qed

lemma join_split_acc:
  "join KEY_SEPARATOR (split_acc KEY_SEPARATOR acc xs) = rev acc @ xs"
proof (induction "KEY_SEPARATOR" acc xs rule: split_acc.induct)
  case (1 acc)
  then show ?case by simp
next
  case (2 acc x xs)
  show ?case
  proof (cases "take (length KEY_SEPARATOR) (x # xs) = KEY_SEPARATOR")
    case True
    then have xs: "x # xs = KEY_SEPARATOR @ drop (length KEY_SEPARATOR - 1) xs"
      by (metis append_take_drop_id drop_Cons' KEY_SEPARATOR_def length_Cons list.size(3) nat.simps(3) diff_Suc_1 One_nat_def)
    have "split_acc KEY_SEPARATOR acc (x # xs)
          = rev acc # split_acc KEY_SEPARATOR [] (drop (length KEY_SEPARATOR - 1) xs)"
      using True by simp
    then have "join KEY_SEPARATOR (split_acc KEY_SEPARATOR acc (x # xs))
          = rev acc @ KEY_SEPARATOR @ drop (length KEY_SEPARATOR - 1) xs"
      using 2(1)[OF True] by (simp add: join_Cons split_acc_nonempty)
    then show ?thesis using xs by simp
  next
    case False
    then show ?thesis using 2(2)[OF False] by simp
  qed
qed

lemma split_join:
  assumes "segs \<noteq> []" "\<forall>seg \<in> set segs. CHR 0x0B \<notin> set seg"
  shows "split KEY_SEPARATOR (join KEY_SEPARATOR segs) = segs"
  using assms
proof (induction segs)
  case Nil
  then show ?case by simp
next
  case (Cons x xs)
  show ?case
  proof (cases "xs = []")
    case True
    then show ?thesis using Cons.prems by (simp add: split_def split_acc_plain)
  next
    case False
    then have "split KEY_SEPARATOR (join KEY_SEPARATOR xs) = xs" using Cons by simp
    then show ?thesis using Cons.prems False
      by (simp add: split_def join_Cons split_acc_sep)
  qed
qed

lemma u_key_join:
  assumes "usegs \<noteq> []"
  shows "u_key (new_cache pre ts) (join KEY_SEPARATOR usegs)
       = join KEY_SEPARATOR ([''HC'', ''a'', pre] @ usegs)"
  using assms join_append[of "[''HC'', ''a'', pre]" usegs KEY_SEPARATOR]
  by (simp add: u_key_def new_cache_def)

lemma join_slash_prefix:
  "ys \<noteq> [] \<Longrightarrow> join ''/'' ([''HC'', ''a'', pre] @ ys) = ''HC/a/'' @ pre @ ''/'' @ join ''/'' ys"
  using join_append[of "[''HC'', ''a'', pre]" ys "''/''"] by simp

lemma keyToPath_join:
  assumes "segs \<noteq> []" "\<forall>seg \<in> set segs. CHR 0x0B \<notin> set seg"
  shows "keyToPath sha1 dir (join KEY_SEPARATOR segs)
       = dir @ ''/'' @ join ''/'' (butlast segs @ [hash sha1 (last segs)])"
  using split_join[OF assms] by (simp add: keyToPath_def Let_def)

text \<open>
  Claim C8, as stated, fails for the current backend, whatever the digest function is. The
  logical key that the cache \<open>api\<close> builds for the user key made of 2049 times \<open>a\<close>, the
  separator and \<open>k\<close> is longer than 2048 characters. Its path keeps the segments \<open>HC\<close>,
  \<open>a\<close>, \<open>api\<close> and the 2049 characters as they are and hashes only the last segment: it
  is not the directory followed by the hash of the whole key, and it is itself longer than
  2048 characters. For the user key of 2049 times \<open>a\<close> alone, the first three segments are
  kept too and only the user key is hashed.
\<close>

theorem keyToPath_whole_key_counterexample:
  "2048 < length (u_key this0 (replicate 2049 (CHR ''a'') @ KEY_SEPARATOR @ ''k''))
   \<and> (\<forall>sha1. keyToPath sha1 ''/cache'' (u_key this0 (replicate 2049 (CHR ''a'') @ KEY_SEPARATOR @ ''k''))
        = ''/cache/HC/a/api/'' @ replicate 2049 (CHR ''a'') @ ''/'' @ hash sha1 ''k'')
   \<and> (\<forall>sha1. keyToPath sha1 ''/cache'' (u_key this0 (replicate 2049 (CHR ''a'') @ KEY_SEPARATOR @ ''k''))
        \<noteq> ''/cache/'' @ hash sha1 (u_key this0 (replicate 2049 (CHR ''a'') @ KEY_SEPARATOR @ ''k'')))
   \<and> (\<forall>sha1. 2048 < length (keyToPath sha1 ''/cache''
        (u_key this0 (replicate 2049 (CHR ''a'') @ KEY_SEPARATOR @ ''k''))))
   \<and> (\<forall>sha1. keyToPath sha1 ''/cache'' (u_key this0 (replicate 2049 (CHR ''a'')))
        = ''/cache/HC/a/api/'' @ hash sha1 (replicate 2049 (CHR ''a'')))"
proof -
  let ?a = "replicate 2049 (CHR ''a'')"
  let ?K = "u_key this0 (?a @ KEY_SEPARATOR @ ''k'')"
  have K: "?K = join KEY_SEPARATOR [''HC'', ''a'', ''api'', ?a, ''k'']"
    by (simp add: u_key_def this0_def new_cache_def)
  have K1: "u_key this0 ?a = join KEY_SEPARATOR [''HC'', ''a'', ''api'', ?a]"
    by (simp add: u_key_def this0_def new_cache_def)
  have p: "keyToPath sha1 ''/cache'' ?K = ''/cache/HC/a/api/'' @ ?a @ ''/'' @ hash sha1 ''k''" for sha1
    unfolding K
    using keyToPath_join[of "[''HC'', ''a'', ''api'', ?a, ''k'']" sha1 "''/cache''"] by simp
  have p1: "keyToPath sha1 ''/cache'' (u_key this0 ?a) = ''/cache/HC/a/api/'' @ hash sha1 ?a" for sha1
    unfolding K1
    using keyToPath_join[of "[''HC'', ''a'', ''api'', ?a]" sha1 "''/cache''"] by simp
  have len: "2048 < length (keyToPath sha1 ''/cache'' ?K)" for sha1
    unfolding p by simp
  have ne: "keyToPath sha1 ''/cache'' ?K \<noteq> ''/cache/'' @ hash sha1 ?K" for sha1
  proof
    assume "keyToPath sha1 ''/cache'' ?K = ''/cache/'' @ hash sha1 ?K"
    then have "length (keyToPath sha1 ''/cache'' ?K) = length (''/cache/'' @ hash sha1 ?K)" by simp
    then show False using len[of sha1] length_hash[of sha1 ?K] by simp
  qed
  have l: "2048 < length ?K" unfolding K by (simp add: KEY_SEPARATOR_def)
  show ?thesis using l p ne len p1 by blast
qed

text \<open>
  Claim C8, amended. Only the earlier \<open>FileCache.backend.keyToPath\<close> hashes the entire key
  when it is longer than 2048 characters (the path is the directory, a slash and the
  digest of the key). The current \<open>FileCacheBackend.keyToPath\<close> has no length threshold.
  For a key of any length, the parts that \<open>split\<close> gives are the segments of the key
  (joined by the separator they give the key back), and the path is the directory followed
  by every part but the last as it is and by the hash of the last part, joined by slashes;
  the hash has at most ten characters. For segments without the first character of the
  separator the parts are these segments, so the key that \<^verbatim>\<open>_key\<close> builds from the prefix
  and a user key keeps \<open>HC\<close>, \<open>a\<close>, the prefix and every segment of the user key but the
  last, which is hashed.
\<close>

theorem keyToPath_no_threshold:
  "(2048 < length key \<longrightarrow> legacy_keyToPath sha1 dir key = dir @ ''/'' @ sha1 key)
   \<and> join KEY_SEPARATOR (split KEY_SEPARATOR key) = key
   \<and> keyToPath sha1 dir key
       = dir @ ''/'' @ join ''/'' (butlast (split KEY_SEPARATOR key)
                                   @ [hash sha1 (last (split KEY_SEPARATOR key))])
   \<and> (segs \<noteq> [] \<and> (\<forall>seg \<in> set segs. CHR 0x0B \<notin> set seg) \<longrightarrow>
        split KEY_SEPARATOR (join KEY_SEPARATOR segs) = segs
        \<and> keyToPath sha1 dir (join KEY_SEPARATOR segs)
            = dir @ ''/'' @ join ''/'' (butlast segs @ [hash sha1 (last segs)]))
   \<and> (CHR 0x0B \<notin> set pre \<and> usegs \<noteq> [] \<and> (\<forall>seg \<in> set usegs. CHR 0x0B \<notin> set seg) \<longrightarrow>
        keyToPath sha1 dir (u_key (new_cache pre ts) (join KEY_SEPARATOR usegs))
          = dir @ ''/HC/a/'' @ pre @ ''/'' @ join ''/'' (butlast usegs @ [hash sha1 (last usegs)]))
   \<and> length (hash sha1 b) \<le> 10"
proof -
  have a: "2048 < length key \<longrightarrow> legacy_keyToPath sha1 dir key = dir @ ''/'' @ sha1 key"
    by (simp add: legacy_keyToPath_def)
  have b: "join KEY_SEPARATOR (split KEY_SEPARATOR key) = key"
    by (simp add: split_def join_split_acc)
  have c: "keyToPath sha1 dir key
       = dir @ ''/'' @ join ''/'' (butlast (split KEY_SEPARATOR key)
                                   @ [hash sha1 (last (split KEY_SEPARATOR key))])"
    by (simp add: keyToPath_def Let_def)
  have d: "split KEY_SEPARATOR (join KEY_SEPARATOR xs) = xs
        \<and> keyToPath sha1 dir (join KEY_SEPARATOR xs)
            = dir @ ''/'' @ join ''/'' (butlast xs @ [hash sha1 (last xs)])"
    if "xs \<noteq> []" "\<forall>seg \<in> set xs. CHR 0x0B \<notin> set seg" for xs
    using split_join[OF that] by (simp add: keyToPath_def Let_def)
  have e: "keyToPath sha1 dir (u_key (new_cache pre ts) (join KEY_SEPARATOR usegs))
          = dir @ ''/HC/a/'' @ pre @ ''/'' @ join ''/'' (butlast usegs @ [hash sha1 (last usegs)])"
    if p: "CHR 0x0B \<notin> set pre" and n: "usegs \<noteq> []" and u: "\<forall>seg \<in> set usegs. CHR 0x0B \<notin> set seg"
  proof -
    let ?all = "[''HC'', ''a'', pre] @ usegs"
    have 1: "?all \<noteq> []" by simp
    have 2: "\<forall>seg \<in> set ?all. CHR 0x0B \<notin> set seg" using p u by auto
    have 3: "butlast ?all @ [hash sha1 (last ?all)]
             = [''HC'', ''a'', pre] @ (butlast usegs @ [hash sha1 (last usegs)])"
      using n by (simp add: butlast_append)
    have "keyToPath sha1 dir (join KEY_SEPARATOR ?all)
            = dir @ ''/'' @ join ''/'' (butlast ?all @ [hash sha1 (last ?all)])"
      using d[OF 1 2] by simp
    also have "\<dots> = dir @ ''/'' @ join ''/'' ([''HC'', ''a'', pre] @ (butlast usegs @ [hash sha1 (last usegs)]))"
      unfolding 3 ..
    also have "\<dots> = dir @ ''/HC/a/'' @ pre @ ''/'' @ join ''/'' (butlast usegs @ [hash sha1 (last usegs)])"
      using join_slash_prefix[of "butlast usegs @ [hash sha1 (last usegs)]" pre] by simp
    finally show ?thesis using u_key_join[OF n, of pre ts] by simp
  qed
  show ?thesis using a b c d e length_hash[of sha1 b] by blast
qed

text \<open>
  Claim C8, amended, at a key of 2049 characters (the earlier encoding) and at the key of
  the cache \<open>api\<close> for a user key of two segments, the first of 2049 characters (the
  current encoding).
\<close>

theorem keyToPath_no_threshold_witness:
  "legacy_keyToPath (\<lambda>x. ''digest'') ''/cache'' (replicate 2049 (CHR ''a'')) = ''/cache/digest''
   \<and> keyToPath (\<lambda>x. ''0123456789abcdefghijklmnopq'') ''/cache''
        (join KEY_SEPARATOR [''HC'', ''a'', ''api'', replicate 2049 (CHR ''a''), ''k''])
      = ''/cache/HC/a/api/'' @ replicate 2049 (CHR ''a'') @ ''/56789abcde''
   \<and> keyToPath (\<lambda>x. ''0123456789abcdefghijklmnopq'') ''/cache''
        (u_key this0 (join KEY_SEPARATOR [replicate 2049 (CHR ''a''), ''k'']))
      = ''/cache/HC/a/api/'' @ replicate 2049 (CHR ''a'') @ ''/56789abcde''"
proof -
  let ?a = "replicate 2049 (CHR ''a'')"
  let ?sha = "\<lambda>x::string. ''0123456789abcdefghijklmnopq''"
  have h: "2048 < length ?a" by simp
  have n: "[''HC'', ''a'', ''api'', ?a, ''k''] \<noteq> []
           \<and> (\<forall>seg \<in> set [''HC'', ''a'', ''api'', ?a, ''k'']. CHR 0x0B \<notin> set seg)" by simp
  have u: "CHR 0x0B \<notin> set ''api'' \<and> [?a, ''k''] \<noteq> [] \<and> (\<forall>seg \<in> set [?a, ''k'']. CHR 0x0B \<notin> set seg)"
    by simp
  have e: "hash ?sha ''k'' = ''56789abcde''" by (simp add: hash_def)
  note t1 = keyToPath_no_threshold[of ?a "\<lambda>x. ''digest''" "''/cache''" "[]" "[]" "[]" units "[]"]
  note t2 = keyToPath_no_threshold[of "[]" ?sha "''/cache''" "[''HC'', ''a'', ''api'', ?a, ''k'']"
      "''api''" "[?a, ''k'']" units "[]"]
  have 1: "legacy_keyToPath (\<lambda>x. ''digest'') ''/cache'' ?a = ''/cache/digest''"
    using t1 h by simp
  have 2: "keyToPath ?sha ''/cache'' (join KEY_SEPARATOR [''HC'', ''a'', ''api'', ?a, ''k''])
      = ''/cache'' @ ''/'' @ join ''/'' (butlast [''HC'', ''a'', ''api'', ?a, ''k''] @ [hash ?sha (last [''HC'', ''a'', ''api'', ?a, ''k''])])"
    by (rule t2[THEN conjunct2, THEN conjunct2, THEN conjunct2, THEN conjunct1, THEN mp, OF n,
          THEN conjunct2])
  have 3: "keyToPath ?sha ''/cache'' (u_key (new_cache ''api'' units) (join KEY_SEPARATOR [?a, ''k'']))
      = ''/cache'' @ ''/HC/a/'' @ ''api'' @ ''/'' @ join ''/'' (butlast [?a, ''k''] @ [hash ?sha (last [?a, ''k''])])"
    by (rule t2[THEN conjunct2, THEN conjunct2, THEN conjunct2, THEN conjunct2, THEN conjunct1,
          THEN mp, OF u])
  show ?thesis using 1 2 3 e by (simp add: this0_def)
qed

section \<open>Properties of the coordinator\<close>

lemmas machine_defs =
  step_def continue_def finish_def deliver_def start_def perform_io_def touch_key_def
  bind_def add_task_def detach_def log_error_def new_promise_def settle_def new_ctx_def JTrue_def JFalse_def parseTTL_def truthy_ttl_def
  truthy_num_def setCtxStale_def apply_fn_def u_fetching_def u_getting_def u_setting_def
  u_getOrSetting_def u_getOrSettingStale_def isBypassed_def keys_of_def u_del_k_def u_del_def
  del_def u_markStale_k_def u_markStale_def markStale_def u_get_k_def getStale_then_def
  getStale_read_k_def settle_k_def getStale_tail_k_def withDefault_k_def getStale_def get_def
  u_set_k_def u_set_def u_setBoth_k_def u_setBoth_def set_catch_k_def set_catch_def set_done_k_def
  set_resolved_k_def set_direct_def set_entry_def result_or_default_k_def u_getOrSet_k1_def
  u_getOrSet_def withDefaultOpts_k_def withDefaultOpts_def bypassed_def u_setWithCheck_def
  getOrSet_tail_k_def background_done_k_def background_k_def u_setBackground_def generateInBg_def
  u_getOrSetStale_k_def u_getOrSetStale_def state_of_def getOrSet_def

lemmas example_defs =
  this0_def init_def new_cache_def no_opts_def KEY_SEPARATOR_def u_key_def swr_opts_def
  units_def bad_ttl_def failing_process_def incrementing_def old_entry_def ttl_entry_def

lemmas run_defs =
  step_def continue_def finish_def deliver_def start_def perform_io_def touch_key_def
  bind_def add_task_def detach_def log_error_def new_promise_def settle_def new_ctx_def JTrue_def JFalse_def truthy_ttl_def
  truthy_num_def setCtxStale_def u_fetching_def u_getting_def u_setting_def
  u_getOrSetting_def u_getOrSettingStale_def isBypassed_def keys_of_def u_del_k_def u_del_def
  del_def u_markStale_k_def u_markStale_def markStale_def u_get_k_def getStale_then_def
  getStale_read_k_def settle_k_def getStale_tail_k_def withDefault_k_def getStale_def get_def
  u_set_k_def u_set_def u_setBoth_k_def u_setBoth_def set_catch_k_def set_catch_def set_done_k_def
  set_resolved_k_def set_direct_def set_entry_def result_or_default_k_def u_getOrSet_k1_def
  u_getOrSet_def withDefaultOpts_k_def withDefaultOpts_def bypassed_def u_setWithCheck_def
  getOrSet_tail_k_def background_done_k_def background_k_def u_setBackground_def generateInBg_def
  u_getOrSetStale_k_def u_getOrSetStale_def state_of_def getOrSet_def

subsection \<open>set with an undefined value\<close>

text \<open>
  Claim C9 at a failing input. \<open>set\<close> on a promise that resolves to undefined, passed as
  the value or returned by the producer function (an async function), returns true and logs
  nothing. \<open>set\<close> on undefined itself, or on a producer function that returns undefined,
  logs the attempt and returns false.
\<close>

theorem set_undefined_promise_returns_true:
  "results (run this0 [Call 0 (Req_set ''k'' (Direct (Thenable (U 3))) no_opts),
                       Settle 3 (Return None), Wake 0] (init Map.empty 1000)) 0
     = Some (Return JTrue)
   \<and> logged (run this0 [Call 0 (Req_set ''k'' (Direct (Thenable (U 3))) no_opts),
                       Settle 3 (Return None), Wake 0] (init Map.empty 1000)) = []
   \<and> results (run this0 [Call 0 (Req_set ''k'' (Producer 7 (Gives (Thenable (U 3)))) no_opts),
                       Settle 3 (Return None), Wake 0] (init Map.empty 1000)) 0
     = Some (Return JTrue)
   \<and> logged (run this0 [Call 0 (Req_set ''k'' (Producer 7 (Gives (Thenable (U 3)))) no_opts),
                       Settle 3 (Return None), Wake 0] (init Map.empty 1000)) = []
   \<and> results (run this0 [Call 0 (Req_set ''k'' (Direct Undefined) no_opts)]
        (init Map.empty 1000)) 0 = Some (Return JFalse)
   \<and> logged (run this0 [Call 0 (Req_set ''k'' (Direct Undefined) no_opts)]
        (init Map.empty 1000)) = [LogSetUndefined ''k'']
   \<and> results (run this0 [Call 0 (Req_set ''k'' (Producer 7 (Gives Undefined)) no_opts)]
        (init Map.empty 1000)) 0 = Some (Return JFalse)
   \<and> logged (run this0 [Call 0 (Req_set ''k'' (Producer 7 (Gives Undefined)) no_opts)]
        (init Map.empty 1000)) = [LogSetUndefined ''k'']"
  by (simp add: machine_defs example_defs Let_def)

subsection \<open>The runs of set\<close>
















lemma job_throws:
  assumes "tasks \<sigma> j = Some \<lparr>waiting = OnTimer, stack = [K_background key (Producer f (Throws e)) options],
                             target = Discard\<rparr>"
    and "\<sigma>2 = run this [Fire j, Settle n po, Wake j, IoDone j oc2] \<sigma>"
  shows "results \<sigma>2 = results \<sigma> \<and> getOrSettingStale \<sigma>2 (u_key this key) = None
       \<and> calls \<sigma>2 = calls \<sigma> @ [f] \<and> tasks \<sigma>2 = (tasks \<sigma>)(j := None)
       \<and> logged \<sigma>2 = logged \<sigma> @ LogSetFailed key e # (case oc2 of Succeed \<Rightarrow> [] | Fail e' \<Rightarrow> [LogError e'])
       \<and> store \<sigma>2 = (case oc2 of Succeed \<Rightarrow> (store \<sigma>)(u_key this key := None) | Fail e' \<Rightarrow> store \<sigma>)"
  using assms by (cases oc2) (simp_all add: run_defs Let_def)

lemma job_undefined:
  assumes "tasks \<sigma> j = Some \<lparr>waiting = OnTimer, stack = [K_background key (Producer f (Gives Undefined)) options],
                             target = Discard\<rparr>"
    and "\<sigma>2 = run this [Fire j, Settle n po, Wake j, IoDone j oc2] \<sigma>"
  shows "results \<sigma>2 = results \<sigma> \<and> getOrSettingStale \<sigma>2 (u_key this key) = None
       \<and> calls \<sigma>2 = calls \<sigma> @ [f] \<and> tasks \<sigma>2 = (tasks \<sigma>)(j := None)
       \<and> logged \<sigma>2 = logged \<sigma> @ [LogSetUndefined key] \<and> store \<sigma>2 = store \<sigma>"
  using assms by (cases oc2) (simp_all add: run_defs Let_def)

lemma job_rejects:
  assumes "tasks \<sigma> j = Some \<lparr>waiting = OnTimer, stack = [K_background key (Producer f (Gives (Thenable (U n)))) options],
                             target = Discard\<rparr>"
    and "promises \<sigma> (U n) = Pending"
    and "po = Throw e"
    and "\<sigma>2 = run this [Fire j, Settle n po, Wake j, IoDone j oc2] \<sigma>"
  shows "results \<sigma>2 = results \<sigma> \<and> getOrSettingStale \<sigma>2 (u_key this key) = None
       \<and> calls \<sigma>2 = calls \<sigma> @ [f] \<and> tasks \<sigma>2 = (tasks \<sigma>)(j := None)
       \<and> logged \<sigma>2 = logged \<sigma> @ LogSetFailed key e # (case oc2 of Succeed \<Rightarrow> [] | Fail e' \<Rightarrow> [LogError e'])
       \<and> store \<sigma>2 = (case oc2 of Succeed \<Rightarrow> (store \<sigma>)(u_key this key := None) | Fail e' \<Rightarrow> store \<sigma>)"
  using assms by (cases oc2) (simp_all add: run_defs Let_def)

lemma job_promise_undefined:
  assumes "tasks \<sigma> j = Some \<lparr>waiting = OnTimer, stack = [K_background key (Producer f (Gives (Thenable (U n)))) options],
                             target = Discard\<rparr>"
    and "promises \<sigma> (U n) = Pending"
    and "po = Return None"
    and "\<sigma>2 = run this [Fire j, Settle n po, Wake j, IoDone j oc2] \<sigma>"
  shows "results \<sigma>2 = results \<sigma> \<and> getOrSettingStale \<sigma>2 (u_key this key) = None
       \<and> calls \<sigma>2 = calls \<sigma> @ [f] \<and> tasks \<sigma>2 = (tasks \<sigma>)(j := None)
       \<and> logged \<sigma>2 = logged \<sigma> \<and> store \<sigma>2 = store \<sigma>"
  using assms by (cases oc2) (simp_all add: run_defs Let_def)

lemma job_plain_parse:
  assumes "tasks \<sigma> j = Some \<lparr>waiting = OnTimer, stack = [K_background key (Producer f (Gives (Plain x))) options],
                             target = Discard\<rparr>"
    and "parseTTL this (o_ttl options) = Inl e"
    and "\<sigma>2 = run this [Fire j, Settle n po, Wake j, IoDone j oc2] \<sigma>"
  shows "results \<sigma>2 = results \<sigma> \<and> getOrSettingStale \<sigma>2 (u_key this key) = None
       \<and> calls \<sigma>2 = calls \<sigma> @ [f] \<and> tasks \<sigma>2 = (tasks \<sigma>)(j := None)
       \<and> logged \<sigma>2 = logged \<sigma> @ LogSetFailed key e # (case oc2 of Succeed \<Rightarrow> [] | Fail e' \<Rightarrow> [LogError e'])
       \<and> store \<sigma>2 = (case oc2 of Succeed \<Rightarrow> (store \<sigma>)(u_key this key := None) | Fail e' \<Rightarrow> store \<sigma>)"
  using assms by (cases oc2) (simp_all add: run_defs Let_def)

lemma job_plain_process:
  assumes "tasks \<sigma> j = Some \<lparr>waiting = OnTimer, stack = [K_background key (Producer f (Gives (Plain x))) options],
                             target = Discard\<rparr>"
    and "parseTTL this (o_ttl options) = Inr ttl" "apply_fn (o_process options) (Some x) = Inl e"
    and "\<sigma>2 = run this [Fire j, Settle n po, Wake j, IoDone j oc2] \<sigma>"
  shows "results \<sigma>2 = results \<sigma> \<and> getOrSettingStale \<sigma>2 (u_key this key) = None
       \<and> calls \<sigma>2 = calls \<sigma> @ [f] \<and> tasks \<sigma>2 = (tasks \<sigma>)(j := None)
       \<and> logged \<sigma>2 = logged \<sigma> @ LogSetFailed key e # (case oc2 of Succeed \<Rightarrow> [] | Fail e' \<Rightarrow> [LogError e'])
       \<and> store \<sigma>2 = (case oc2 of Succeed \<Rightarrow> (store \<sigma>)(u_key this key := None) | Fail e' \<Rightarrow> store \<sigma>)"
  using assms by (cases oc2) (simp_all add: run_defs Let_def)

lemma job_plain_ok:
  assumes "tasks \<sigma> j = Some \<lparr>waiting = OnTimer, stack = [K_background key (Producer f (Gives (Plain x))) options],
                             target = Discard\<rparr>"
    and "parseTTL this (o_ttl options) = Inr ttl" "apply_fn (o_process options) (Some x) = Inr lv"
    and "\<sigma>2 = run this [Fire j, Settle n po, Wake j, IoDone j oc2] \<sigma>"
  shows "results \<sigma>2 = results \<sigma> \<and> getOrSettingStale \<sigma>2 (u_key this key) = None
       \<and> calls \<sigma>2 = calls \<sigma> @ [f] \<and> tasks \<sigma>2 = (tasks \<sigma>)(j := None)
       \<and> logged \<sigma>2 = logged \<sigma> @ (case oc2 of Succeed \<Rightarrow> [] | Fail e' \<Rightarrow> [LogError e'])
       \<and> store \<sigma>2 = (case oc2 of Succeed \<Rightarrow> (store \<sigma>)(u_key this key \<mapsto> \<lparr>cv_v = x, cv_c = now \<sigma>, cv_t = ttl\<rparr>)
                      | Fail e' \<Rightarrow> store \<sigma>)"
  using assms by (cases oc2) (simp_all add: run_defs Let_def)

lemma job_promise_parse:
  assumes "tasks \<sigma> j = Some \<lparr>waiting = OnTimer, stack = [K_background key (Producer f (Gives (Thenable (U n)))) options],
                             target = Discard\<rparr>"
    and "promises \<sigma> (U n) = Pending"
    and "po = Return (Some x)"
    and "parseTTL this (o_ttl options) = Inl e"
    and "\<sigma>2 = run this [Fire j, Settle n po, Wake j, IoDone j oc2] \<sigma>"
  shows "results \<sigma>2 = results \<sigma> \<and> getOrSettingStale \<sigma>2 (u_key this key) = None
       \<and> calls \<sigma>2 = calls \<sigma> @ [f] \<and> tasks \<sigma>2 = (tasks \<sigma>)(j := None)
       \<and> logged \<sigma>2 = logged \<sigma> @ LogSetFailed key e # (case oc2 of Succeed \<Rightarrow> [] | Fail e' \<Rightarrow> [LogError e'])
       \<and> store \<sigma>2 = (case oc2 of Succeed \<Rightarrow> (store \<sigma>)(u_key this key := None) | Fail e' \<Rightarrow> store \<sigma>)"
  using assms by (cases oc2) (simp_all add: run_defs Let_def)

lemma job_promise_process:
  assumes "tasks \<sigma> j = Some \<lparr>waiting = OnTimer, stack = [K_background key (Producer f (Gives (Thenable (U n)))) options],
                             target = Discard\<rparr>"
    and "promises \<sigma> (U n) = Pending"
    and "po = Return (Some x)"
    and "parseTTL this (o_ttl options) = Inr ttl" "apply_fn (o_process options) (Some x) = Inl e"
    and "\<sigma>2 = run this [Fire j, Settle n po, Wake j, IoDone j oc2] \<sigma>"
  shows "results \<sigma>2 = results \<sigma> \<and> getOrSettingStale \<sigma>2 (u_key this key) = None
       \<and> calls \<sigma>2 = calls \<sigma> @ [f] \<and> tasks \<sigma>2 = (tasks \<sigma>)(j := None)
       \<and> logged \<sigma>2 = logged \<sigma> @ LogSetFailed key e # (case oc2 of Succeed \<Rightarrow> [] | Fail e' \<Rightarrow> [LogError e'])
       \<and> store \<sigma>2 = (case oc2 of Succeed \<Rightarrow> (store \<sigma>)(u_key this key := None) | Fail e' \<Rightarrow> store \<sigma>)"
  using assms by (cases oc2) (simp_all add: run_defs Let_def)

lemma job_promise_ok:
  assumes "tasks \<sigma> j = Some \<lparr>waiting = OnTimer, stack = [K_background key (Producer f (Gives (Thenable (U n)))) options],
                             target = Discard\<rparr>"
    and "promises \<sigma> (U n) = Pending"
    and "po = Return (Some x)"
    and "parseTTL this (o_ttl options) = Inr ttl" "apply_fn (o_process options) (Some x) = Inr lv"
    and "\<sigma>2 = run this [Fire j, Settle n po, Wake j, IoDone j oc2] \<sigma>"
  shows "results \<sigma>2 = results \<sigma> \<and> getOrSettingStale \<sigma>2 (u_key this key) = None
       \<and> calls \<sigma>2 = calls \<sigma> @ [f] \<and> tasks \<sigma>2 = (tasks \<sigma>)(j := None)
       \<and> logged \<sigma>2 = logged \<sigma> @ (case oc2 of Succeed \<Rightarrow> [] | Fail e' \<Rightarrow> [LogError e'])
       \<and> store \<sigma>2 = (case oc2 of Succeed \<Rightarrow> (store \<sigma>)(u_key this key \<mapsto> \<lparr>cv_v = x, cv_c = now \<sigma>, cv_t = ttl\<rparr>)
                      | Fail e' \<Rightarrow> store \<sigma>)"
  using assms by (cases oc2) (simp_all add: run_defs Let_def)































text \<open>The kinds of value behind a failure, a write and an undefined value.\<close>

lemma failure_cases:
  assumes pend: "\<forall>p. r = Gives (Thenable p) \<longrightarrow> p = U n \<and> promises s (U n) = Pending"
    and fails: "set_fails this options (resolved r po) e"
  obtains (throws) "r = Throws e"
    | (rejects) "r = Gives (Thenable (U n))" "promises s (U n) = Pending" "po = Throw e"
    | (plain_parse) x where "r = Gives (Plain x)" "parseTTL this (o_ttl options) = Inl e"
    | (plain_process) x ttl where "r = Gives (Plain x)" "parseTTL this (o_ttl options) = Inr ttl"
        "apply_fn (o_process options) (Some x) = Inl e"
    | (promise_parse) x where "r = Gives (Thenable (U n))" "promises s (U n) = Pending"
        "po = Return (Some x)" "parseTTL this (o_ttl options) = Inl e"
    | (promise_process) x ttl where "r = Gives (Thenable (U n))" "promises s (U n) = Pending"
        "po = Return (Some x)" "parseTTL this (o_ttl options) = Inr ttl"
        "apply_fn (o_process options) (Some x) = Inl e"
proof (cases r)
  case (Throws e')
  then have "e' = e" using fails by simp
  then show ?thesis using Throws throws by simp
next
  case (Gives d)
  show ?thesis
  proof (cases d)
    case Undefined
    then show ?thesis using fails Gives by simp
  next
    case (Plain x')
    then have "parseTTL this (o_ttl options) = Inl e
               \<or> (\<exists>ttl. parseTTL this (o_ttl options) = Inr ttl
                        \<and> apply_fn (o_process options) (Some x') = Inl e)"
      using fails Gives by simp
    then show ?thesis using Gives Plain plain_parse plain_process by blast
  next
    case (Thenable p)
    have p: "p = U n" "promises s (U n) = Pending"
      using pend[rule_format, of p] Gives Thenable by simp_all
    have r: "r = Gives (Thenable (U n))" using Gives Thenable p by simp
    have "set_fails this options po e" using fails Gives Thenable by simp
    then show ?thesis using r p(2) rejects promise_parse promise_process by blast
  qed
qed

lemma write_cases:
  assumes pend: "\<forall>p. r = Gives (Thenable p) \<longrightarrow> p = U n \<and> promises s (U n) = Pending"
    and ok: "resolved r po = Return (Some x)"
  obtains (plain) "r = Gives (Plain x)"
    | (promise) "r = Gives (Thenable (U n))" "promises s (U n) = Pending" "po = Return (Some x)"
proof (cases r)
  case (Throws e')
  then show ?thesis using ok by simp
next
  case (Gives d)
  show ?thesis
  proof (cases d)
    case Undefined
    then show ?thesis using ok Gives by simp
  next
    case (Plain x')
    then show ?thesis using ok Gives plain by simp
  next
    case (Thenable p)
    have p: "p = U n" "promises s (U n) = Pending"
      using pend[rule_format, of p] Gives Thenable by simp_all
    show ?thesis using ok Gives Thenable p promise by simp
  qed
qed

lemma undefined_cases:
  assumes pend: "\<forall>p. r = Gives (Thenable p) \<longrightarrow> p = U n \<and> promises s (U n) = Pending"
    and none: "resolved r po = Return None"
  obtains (undefined) "r = Gives Undefined"
    | (promise) "r = Gives (Thenable (U n))" "promises s (U n) = Pending" "po = Return None"
proof (cases r)
  case (Throws e')
  then show ?thesis using none by simp
next
  case (Gives d)
  show ?thesis
  proof (cases d)
    case Undefined
    then show ?thesis using Gives undefined by simp
  next
    case (Plain x')
    then show ?thesis using none Gives by simp
  next
    case (Thenable p)
    have p: "p = U n" "promises s (U n) = Pending"
      using pend[rule_format, of p] Gives Thenable by simp_all
    show ?thesis using none Gives Thenable p promise by simp
  qed
qed





lemma job_fails_run:
  assumes job: "tasks \<sigma> j = Some \<lparr>waiting = OnTimer, stack = [K_background key (Producer f r) options],
                             target = Discard\<rparr>"
    and pend: "\<forall>p. r = Gives (Thenable p) \<longrightarrow> p = U n \<and> promises \<sigma> (U n) = Pending"
    and fails: "set_fails this options (resolved r po) e"
    and run: "\<sigma>2 = run this [Fire j, Settle n po, Wake j, IoDone j oc2] \<sigma>"
  shows "results \<sigma>2 = results \<sigma> \<and> getOrSettingStale \<sigma>2 (u_key this key) = None
       \<and> calls \<sigma>2 = calls \<sigma> @ [f] \<and> tasks \<sigma>2 = (tasks \<sigma>)(j := None)
       \<and> logged \<sigma>2 = logged \<sigma> @ LogSetFailed key e # (case oc2 of Succeed \<Rightarrow> [] | Fail e' \<Rightarrow> [LogError e'])
       \<and> store \<sigma>2 = (case oc2 of Succeed \<Rightarrow> (store \<sigma>)(u_key this key := None) | Fail e' \<Rightarrow> store \<sigma>)"
  using pend fails
proof (cases rule: failure_cases)
  case throws
  show ?thesis by (rule job_throws[OF job[unfolded throws] run])
next
  case rejects
  show ?thesis by (rule job_rejects[OF job[unfolded rejects(1)] rejects(2,3) run])
next
  case (plain_parse x)
  show ?thesis by (rule job_plain_parse[OF job[unfolded plain_parse(1)] plain_parse(2) run])
next
  case (plain_process x ttl)
  show ?thesis by (rule job_plain_process[OF job[unfolded plain_process(1)] plain_process(2,3) run])
next
  case (promise_parse x)
  show ?thesis by (rule job_promise_parse[OF job[unfolded promise_parse(1)] promise_parse(2,3,4) run])
next
  case (promise_process x ttl)
  show ?thesis
    by (rule job_promise_process[OF job[unfolded promise_process(1)] promise_process(2,3,4,5) run])
qed

lemma job_writes_run:
  assumes job: "tasks \<sigma> j = Some \<lparr>waiting = OnTimer, stack = [K_background key (Producer f r) options],
                             target = Discard\<rparr>"
    and pend: "\<forall>p. r = Gives (Thenable p) \<longrightarrow> p = U n \<and> promises \<sigma> (U n) = Pending"
    and writes: "set_writes this options (resolved r po) x ttl lv"
    and run: "\<sigma>2 = run this [Fire j, Settle n po, Wake j, IoDone j oc2] \<sigma>"
  shows "results \<sigma>2 = results \<sigma> \<and> getOrSettingStale \<sigma>2 (u_key this key) = None
       \<and> calls \<sigma>2 = calls \<sigma> @ [f] \<and> tasks \<sigma>2 = (tasks \<sigma>)(j := None)
       \<and> logged \<sigma>2 = logged \<sigma> @ (case oc2 of Succeed \<Rightarrow> [] | Fail e' \<Rightarrow> [LogError e'])
       \<and> store \<sigma>2 = (case oc2 of Succeed \<Rightarrow> (store \<sigma>)(u_key this key \<mapsto> \<lparr>cv_v = x, cv_c = now \<sigma>, cv_t = ttl\<rparr>)
                      | Fail e' \<Rightarrow> store \<sigma>)"
proof -
  have res: "resolved r po = Return (Some x)" and parse: "parseTTL this (o_ttl options) = Inr ttl"
    and process: "apply_fn (o_process options) (Some x) = Inr lv"
    using writes by simp_all
  from pend res show ?thesis
  proof (cases rule: write_cases)
    case plain
    show ?thesis by (rule job_plain_ok[OF job[unfolded plain] parse process run])
  next
    case promise
    show ?thesis by (rule job_promise_ok[OF job[unfolded promise(1)] promise(2,3) parse process run])
  qed
qed

lemma job_undefined_run:
  assumes job: "tasks \<sigma> j = Some \<lparr>waiting = OnTimer, stack = [K_background key (Producer f r) options],
                             target = Discard\<rparr>"
    and pend: "\<forall>p. r = Gives (Thenable p) \<longrightarrow> p = U n \<and> promises \<sigma> (U n) = Pending"
    and none: "resolved r po = Return None"
    and run: "\<sigma>2 = run this [Fire j, Settle n po, Wake j, IoDone j oc2] \<sigma>"
  shows "results \<sigma>2 = results \<sigma> \<and> getOrSettingStale \<sigma>2 (u_key this key) = None
       \<and> calls \<sigma>2 = calls \<sigma> @ [f] \<and> tasks \<sigma>2 = (tasks \<sigma>)(j := None)
       \<and> store \<sigma>2 = store \<sigma>"
  using pend none
proof (cases rule: undefined_cases)
  case undefined
  show ?thesis using job_undefined[OF job[unfolded undefined] run] by simp
next
  case promise
  show ?thesis using job_promise_undefined[OF job[unfolded promise(1)] promise(2,3) run] by simp
qed












subsection \<open>set that fails\<close>




subsection \<open>getOrSet with staleTTL\<close>

text \<open>
  The first part of \<^verbatim>\<open>_getOrSetStale\<close>: the read of the call itself, and the wait for a
  read in flight.
\<close>

lemma swr_absent_own:
  assumes "truthy_ttl (o_staleTTL options)" "parseTTL this (o_staleTTL options) = Inr st"
    and "\<not> isBypassed this" "\<not> o_forceUpdate options"
    and "o_requireResult options = Some False" "\<not> o_freshResult options"
    and "getting s (u_key this key) = None" "oc = Succeed \<longrightarrow> store s (u_key this key) = None"
    and "s1 = run this [Call cid (Req_getOrSet key val options), IoDone (next_tid s) oc] s"
  shows "results s1 cid = Some (Return (o_default options)) \<and> calls s1 = calls s
       \<and> store s1 = store s
       \<and> (case getOrSettingStale s (u_key this key) of
             Some b \<Rightarrow> tasks s1 = (tasks s)(next_tid s := None)
                       \<and> getOrSettingStale s1 = getOrSettingStale s
           | None \<Rightarrow>
               tasks s1 = (tasks s)(next_tid s := None, Suc (next_tid s) \<mapsto>
                  \<lparr>waiting = OnTimer, stack = [K_background key val options], target = Discard\<rparr>)
               \<and> getOrSettingStale s1 = (getOrSettingStale s)(u_key this key \<mapsto> True))"
  using assms
  by (cases oc; cases "getOrSettingStale s (u_key this key)") (simp_all add: run_defs Let_def)

lemma swr_shared_wait:
  assumes "truthy_ttl (o_staleTTL options)" "parseTTL this (o_staleTTL options) = Inr st"
    and "\<not> isBypassed this" "\<not> o_forceUpdate options"
    and "getting s (u_key this key) = Some gp"
    and "sw = step this (Call cid (Req_getOrSet key val options)) s"
  shows "tasks sw = (tasks s)(next_tid s \<mapsto>
            \<lparr>waiting = OnPromise gp,
             stack = [K_getStale_shared None, K_getOrSetStale key val options (next_ctx s)],
             target = Report cid\<rparr>)
       \<and> \<not> ctx_isStale (ctxs sw (next_ctx s)) \<and> results sw = results s \<and> calls sw = calls s
       \<and> store sw = store s \<and> getOrSettingStale sw = getOrSettingStale s"
  using assms by (simp add: run_defs Let_def)

lemma swr_absent_shared:
  assumes "o_requireResult options = Some False" "\<not> o_freshResult options"
    and "tasks \<sigma> t = Some \<lparr>waiting = OnPromise gp,
             stack = [K_getStale_shared None, K_getOrSetStale key val options c],
             target = Report cid\<rparr>"
    and "promises \<sigma> gp = Fulfilled None"
    and "\<sigma>' = step this (Wake t) \<sigma>"
  shows "results \<sigma>' = (results \<sigma>)(cid \<mapsto> Return (o_default options)) \<and> calls \<sigma>' = calls \<sigma>
       \<and> store \<sigma>' = store \<sigma>
       \<and> (case getOrSettingStale \<sigma> (u_key this key) of
             Some b \<Rightarrow> tasks \<sigma>' = (tasks \<sigma>)(t := None)
                       \<and> getOrSettingStale \<sigma>' = getOrSettingStale \<sigma>
           | None \<Rightarrow>
               tasks \<sigma>' = (tasks \<sigma>)(t := None, next_tid \<sigma> \<mapsto>
                  \<lparr>waiting = OnTimer, stack = [K_background key val options], target = Discard\<rparr>)
               \<and> getOrSettingStale \<sigma>' = (getOrSettingStale \<sigma>)(u_key this key \<mapsto> True))"
  using assms
  by (cases "getOrSettingStale \<sigma> (u_key this key)") (simp_all add: run_defs Let_def)

lemma swr_stale_own:
  assumes "truthy_ttl (o_staleTTL options)" "parseTTL this (o_staleTTL options) = Inr (Some st)"
    and "st \<noteq> 0" "\<not> isBypassed this" "\<not> o_forceUpdate options" "\<not> o_freshResult options"
    and "getting s (u_key this key) = None" "store s (u_key this key) = Some ent"
    and "\<not> (truthy_num (cv_t ent) \<and> cv_c ent < now s - the (cv_t ent))"
    and "cv_c ent < now s - st"
    and "apply_fn (o_fromJSON options) (Some (cv_v ent)) = Inr x"
    and "apply_fn (o_process options) x = Inr (Some y)"
    and "s1 = run this [Call cid (Req_getOrSet key val options), IoDone (next_tid s) Succeed] s"
  shows "results s1 cid = Some (Return (Some y)) \<and> calls s1 = calls s \<and> store s1 = store s
       \<and> (case getOrSettingStale s (u_key this key) of
             Some b \<Rightarrow> tasks s1 = (tasks s)(next_tid s := None)
                       \<and> getOrSettingStale s1 = getOrSettingStale s
           | None \<Rightarrow>
               tasks s1 = (tasks s)(next_tid s := None, Suc (next_tid s) \<mapsto>
                  \<lparr>waiting = OnTimer, stack = [K_background key val options], target = Discard\<rparr>)
               \<and> getOrSettingStale s1 = (getOrSettingStale s)(u_key this key \<mapsto> True))"
  using assms
  by (cases "getOrSettingStale s (u_key this key)") (auto simp: run_defs Let_def)

lemma swr_stale_shared:
  assumes "tasks \<sigma> t = Some \<lparr>waiting = OnPromise gp,
             stack = [K_getStale_shared None, K_getOrSetStale key val options c],
             target = Report cid\<rparr>"
    and "promises \<sigma> gp = Fulfilled (Some v)" "\<not> ctx_isStale (ctxs \<sigma> c)"
    and "\<sigma>' = step this (Wake t) \<sigma>"
  shows "results \<sigma>' = (results \<sigma>)(cid \<mapsto> Return (Some v)) \<and> calls \<sigma>' = calls \<sigma>
       \<and> store \<sigma>' = store \<sigma> \<and> tasks \<sigma>' = (tasks \<sigma>)(t := None)
       \<and> getOrSettingStale \<sigma>' = getOrSettingStale \<sigma>"
  using assms by (simp add: run_defs Let_def)

text \<open>The background job, for every kind of value.\<close>

lemma job_common:
  assumes job: "tasks \<sigma> j = Some \<lparr>waiting = OnTimer, stack = [K_background key (Producer f r) options],
                             target = Discard\<rparr>"
    and pend: "\<forall>p. r = Gives (Thenable p) \<longrightarrow> p = U n \<and> promises \<sigma> (U n) = Pending"
    and run: "\<sigma>2 = run this [Fire j, Settle n po, Wake j, IoDone j oc2] \<sigma>"
  shows "results \<sigma>2 = results \<sigma> \<and> getOrSettingStale \<sigma>2 (u_key this key) = None
       \<and> calls \<sigma>2 = calls \<sigma> @ [f] \<and> tasks \<sigma>2 = (tasks \<sigma>)(j := None)"
proof (cases "resolved r po")
  case (Throw e)
  then have "set_fails this options (resolved r po) e" by simp
  from job_fails_run[OF job pend this run] show ?thesis by simp
next
  case (Return y)
  show ?thesis
  proof (cases y)
    case None
    then have "resolved r po = Return None" using Return by simp
    from job_undefined_run[OF job pend this run] show ?thesis by simp
  next
    case (Some x)
    show ?thesis
    proof (cases "parseTTL this (o_ttl options)")
      case (Inl e)
      then have "set_fails this options (resolved r po) e" using Return Some by simp
      from job_fails_run[OF job pend this run] show ?thesis by simp
    next
      case (Inr ttl)
      show ?thesis
      proof (cases "apply_fn (o_process options) (Some x)")
        case (Inl e)
        then have "set_fails this options (resolved r po) e" using Return Some Inr by simp
        from job_fails_run[OF job pend this run] show ?thesis by simp
      next
        case inr: (Inr lv)
        then have "set_writes this options (resolved r po) x ttl lv" using Return Some Inr by simp
        from job_writes_run[OF job pend this run] show ?thesis by simp
      qed
    qed
  qed
qed

lemma background_job:
  assumes job: "tasks \<sigma> j = Some \<lparr>waiting = OnTimer, stack = [K_background key (Producer f r) options],
                             target = Discard\<rparr>"
    and pend: "\<forall>p. r = Gives (Thenable p) \<longrightarrow> p = U n \<and> promises \<sigma> (U n) = Pending"
    and run: "\<sigma>2 = run this [Fire j, Settle n po, Wake j, IoDone j oc2] \<sigma>"
  shows "results \<sigma>2 = results \<sigma> \<and> getOrSettingStale \<sigma>2 (u_key this key) = None
       \<and> calls \<sigma>2 = calls \<sigma> @ [f] \<and> tasks \<sigma>2 = (tasks \<sigma>)(j := None)
       \<and> (set_fails this options (resolved r po) e \<longrightarrow>
             logged \<sigma>2 = logged \<sigma> @ LogSetFailed key e
                            # (case oc2 of Succeed \<Rightarrow> [] | Fail e' \<Rightarrow> [LogError e'])
             \<and> store \<sigma>2 = (case oc2 of Succeed \<Rightarrow> (store \<sigma>)(u_key this key := None)
                            | Fail e' \<Rightarrow> store \<sigma>))
       \<and> (resolved r po = Return None \<longrightarrow> store \<sigma>2 = store \<sigma>)
       \<and> (set_writes this options (resolved r po) x ttl lv \<longrightarrow>
             logged \<sigma>2 = logged \<sigma> @ (case oc2 of Succeed \<Rightarrow> [] | Fail e' \<Rightarrow> [LogError e'])
             \<and> store \<sigma>2 = (case oc2 of
                              Succeed \<Rightarrow> (store \<sigma>)(u_key this key \<mapsto>
                                            \<lparr>cv_v = x, cv_c = now \<sigma>, cv_t = ttl\<rparr>)
                            | Fail e' \<Rightarrow> store \<sigma>))"
proof -
  note c = job_common[OF job pend run]
  have f: "logged \<sigma>2 = logged \<sigma> @ LogSetFailed key e
                            # (case oc2 of Succeed \<Rightarrow> [] | Fail e' \<Rightarrow> [LogError e'])
             \<and> store \<sigma>2 = (case oc2 of Succeed \<Rightarrow> (store \<sigma>)(u_key this key := None)
                            | Fail e' \<Rightarrow> store \<sigma>)"
    if "set_fails this options (resolved r po) e"
    using job_fails_run[OF job pend that run] by simp
  have u: "store \<sigma>2 = store \<sigma>" if "resolved r po = Return None"
    using job_undefined_run[OF job pend that run] by simp
  have w: "logged \<sigma>2 = logged \<sigma> @ (case oc2 of Succeed \<Rightarrow> [] | Fail e' \<Rightarrow> [LogError e'])
             \<and> store \<sigma>2 = (case oc2 of
                              Succeed \<Rightarrow> (store \<sigma>)(u_key this key \<mapsto>
                                            \<lparr>cv_v = x, cv_c = now \<sigma>, cv_t = ttl\<rparr>)
                            | Fail e' \<Rightarrow> store \<sigma>)"
    if "set_writes this options (resolved r po) x ttl lv"
    using job_writes_run[OF job pend that run] by simp
  show ?thesis using c f u w by blast
qed

text \<open>
  Claim C5, as stated, fails when \<open>freshResult\<close> is set: with \<open>requireResult\<close> false and
  no entry, the call does not resolve when the read completes (the producer runs in the
  foreground), and it resolves to the produced value, not to the default. With
  \<open>forceUpdate\<close> it resolves to the produced value too, with a \<open>staleTTL\<close> that does
  not parse it rejects at once and the producer never runs, and on a bypassed cache it
  resolves to the produced value without a read.
\<close>

theorem swr_absent_freshResult_counterexample:
  "results (run this0
      [Call 0 (Req_getOrSet ''k'' (Producer 7 (Gives (Plain (JNum 1))))
                 (swr_opts\<lparr>o_requireResult := Some False, o_freshResult := True\<rparr>)),
       IoDone 0 Succeed] (init Map.empty 1000)) 0 = None
   \<and> calls (run this0
      [Call 0 (Req_getOrSet ''k'' (Producer 7 (Gives (Plain (JNum 1))))
                 (swr_opts\<lparr>o_requireResult := Some False, o_freshResult := True\<rparr>)),
       IoDone 0 Succeed] (init Map.empty 1000)) = [7]
   \<and> results (run this0
      [Call 0 (Req_getOrSet ''k'' (Producer 7 (Gives (Plain (JNum 1))))
                 (swr_opts\<lparr>o_requireResult := Some False, o_freshResult := True\<rparr>)),
       IoDone 0 Succeed, IoDone 0 Succeed] (init Map.empty 1000)) 0
     = Some (Return (Some (JNum 1)))
   \<and> o_default (swr_opts\<lparr>o_requireResult := Some False, o_freshResult := True\<rparr>)
     = Some (JStr ''none'')
   \<and> results (run this0
      [Call 0 (Req_getOrSet ''k'' (Producer 7 (Gives (Plain (JNum 1))))
                 (swr_opts\<lparr>o_requireResult := Some False, o_forceUpdate := True\<rparr>)),
       IoDone 0 Succeed] (init Map.empty 1000)) 0
     = Some (Return (Some (JNum 1)))
   \<and> results (run this0
      [Call 0 (Req_getOrSet ''k'' (Producer 7 (Gives (Plain (JNum 1))))
                 (swr_opts\<lparr>o_requireResult := Some False, o_staleTTL := Some (Str ''abc'')\<rparr>))]
      (init Map.empty 1000)) 0
     = Some (Throw ''unit not supported'')
   \<and> calls (run this0
      [Call 0 (Req_getOrSet ''k'' (Producer 7 (Gives (Plain (JNum 1))))
                 (swr_opts\<lparr>o_requireResult := Some False, o_staleTTL := Some (Str ''abc'')\<rparr>))]
      (init Map.empty 1000)) = []
   \<and> results (run (this0\<lparr>inst_bypass := Some True\<rparr>)
      [Call 0 (Req_getOrSet ''k'' (Producer 7 (Gives (Plain (JNum 1))))
                 (swr_opts\<lparr>o_requireResult := Some False\<rparr>))]
      (init Map.empty 1000)) 0
     = Some (Return (Some (JNum 1)))"
  by (simp add: machine_defs example_defs Let_def)

text \<open>
  Claim C5, amended. For a \<open>getOrSet\<close> with a \<open>staleTTL\<close> that is truthy and parses,
  \<open>requireResult\<close> false, \<open>freshResult\<close> and \<open>forceUpdate\<close> not set, on a cache that
  is not bypassed, from any state. When no read of the key is in flight and the backend
  has no entry (or its read fails), the call resolves to \<open>options.default\<close> when the read
  completes (\<open>s1\<close>). When a read of the key is in flight, the call waits for its promise
  (\<open>sw\<close>), and when that promise is fulfilled with undefined the call resolves to
  \<open>options.default\<close> (\<open>\<sigma>'\<close>). In both cases the producer has not run and nothing is
  stored; when a refresh of the key is already registered no job is scheduled, otherwise
  the key is registered and one job is scheduled on a timer. When a scheduled job has run
  (\<open>\<sigma>2\<close>), whatever the producer gives (a throw, undefined, a plain value, a promise that
  settles with \<open>po\<close>): the producer has been called once, no caller's result has
  changed, the registration is removed; a failure of the \<open>set\<close> is logged and has the
  key deleted; an undefined value changes no entry; a value is written, unless the
  backend write fails, which is logged.
\<close>

theorem swr_absent_no_require:
  assumes o1: "truthy_ttl (o_staleTTL options)" and o2: "parseTTL this (o_staleTTL options) = Inr st"
    and o3: "\<not> isBypassed this" and o4: "\<not> o_forceUpdate options"
    and o5: "o_requireResult options = Some False" and o6: "\<not> o_freshResult options"
    and req: "req = Req_getOrSet key (Producer f r) options"
    and job: "job = \<lparr>waiting = OnTimer, stack = [K_background key (Producer f r) options],
                     target = Discard\<rparr>"
    and s1: "s1 = run this [Call cid req, IoDone (next_tid s) oc] s"
    and sw: "sw = step this (Call cid req) s"
    and w': "\<sigma>' = step this (Wake t) \<sigma>"
    and j2: "\<sigma>2 = run this [Fire j, Settle n po, Wake j, IoDone j oc2] \<sigma>j"
  shows "(getting s (u_key this key) = None \<and> (oc = Succeed \<longrightarrow> store s (u_key this key) = None) \<longrightarrow>
            results s1 cid = Some (Return (o_default options)) \<and> calls s1 = calls s
            \<and> store s1 = store s
            \<and> (case getOrSettingStale s (u_key this key) of
                  Some b \<Rightarrow> tasks s1 = (tasks s)(next_tid s := None)
                            \<and> getOrSettingStale s1 = getOrSettingStale s
                | None \<Rightarrow> tasks s1 = (tasks s)(next_tid s := None, Suc (next_tid s) \<mapsto> job)
                          \<and> getOrSettingStale s1 = (getOrSettingStale s)(u_key this key \<mapsto> True)))
       \<and> (getting s (u_key this key) = Some gp \<longrightarrow>
            tasks sw = (tasks s)(next_tid s \<mapsto>
               \<lparr>waiting = OnPromise gp,
                stack = [K_getStale_shared None,
                         K_getOrSetStale key (Producer f r) options (next_ctx s)],
                target = Report cid\<rparr>)
            \<and> results sw = results s \<and> calls sw = calls s \<and> store sw = store s
            \<and> getOrSettingStale sw = getOrSettingStale s)
       \<and> (tasks \<sigma> t = Some \<lparr>waiting = OnPromise gp,
                               stack = [K_getStale_shared None,
                                        K_getOrSetStale key (Producer f r) options c],
                               target = Report cid\<rparr>
          \<and> promises \<sigma> gp = Fulfilled None \<longrightarrow>
            results \<sigma>' = (results \<sigma>)(cid \<mapsto> Return (o_default options))
            \<and> calls \<sigma>' = calls \<sigma> \<and> store \<sigma>' = store \<sigma>
            \<and> (case getOrSettingStale \<sigma> (u_key this key) of
                  Some b \<Rightarrow> tasks \<sigma>' = (tasks \<sigma>)(t := None)
                            \<and> getOrSettingStale \<sigma>' = getOrSettingStale \<sigma>
                | None \<Rightarrow> tasks \<sigma>' = (tasks \<sigma>)(t := None, next_tid \<sigma> \<mapsto> job)
                          \<and> getOrSettingStale \<sigma>' = (getOrSettingStale \<sigma>)(u_key this key \<mapsto> True)))
       \<and> (tasks \<sigma>j j = Some job
          \<and> (\<forall>p. r = Gives (Thenable p) \<longrightarrow> p = U n \<and> promises \<sigma>j (U n) = Pending) \<longrightarrow>
            results \<sigma>2 = results \<sigma>j \<and> getOrSettingStale \<sigma>2 (u_key this key) = None
            \<and> calls \<sigma>2 = calls \<sigma>j @ [f] \<and> tasks \<sigma>2 = (tasks \<sigma>j)(j := None)
            \<and> (set_fails this options (resolved r po) e \<longrightarrow>
                  logged \<sigma>2 = logged \<sigma>j @ LogSetFailed key e
                                 # (case oc2 of Succeed \<Rightarrow> [] | Fail e' \<Rightarrow> [LogError e'])
                  \<and> store \<sigma>2 = (case oc2 of Succeed \<Rightarrow> (store \<sigma>j)(u_key this key := None)
                                 | Fail e' \<Rightarrow> store \<sigma>j))
            \<and> (resolved r po = Return None \<longrightarrow> store \<sigma>2 = store \<sigma>j)
            \<and> (set_writes this options (resolved r po) x ttl lv \<longrightarrow>
                  logged \<sigma>2 = logged \<sigma>j @ (case oc2 of Succeed \<Rightarrow> [] | Fail e' \<Rightarrow> [LogError e'])
                  \<and> store \<sigma>2 = (case oc2 of
                                   Succeed \<Rightarrow> (store \<sigma>j)(u_key this key \<mapsto>
                                                 \<lparr>cv_v = x, cv_c = now \<sigma>j, cv_t = ttl\<rparr>)
                                 | Fail e' \<Rightarrow> store \<sigma>j)))"
proof -
  have a: "results s1 cid = Some (Return (o_default options)) \<and> calls s1 = calls s
            \<and> store s1 = store s
            \<and> (case getOrSettingStale s (u_key this key) of
                  Some b \<Rightarrow> tasks s1 = (tasks s)(next_tid s := None)
                            \<and> getOrSettingStale s1 = getOrSettingStale s
                | None \<Rightarrow> tasks s1 = (tasks s)(next_tid s := None, Suc (next_tid s) \<mapsto> job)
                          \<and> getOrSettingStale s1 = (getOrSettingStale s)(u_key this key \<mapsto> True))"
    if "getting s (u_key this key) = None" "oc = Succeed \<longrightarrow> store s (u_key this key) = None"
    unfolding job by (rule swr_absent_own[OF o1 o2 o3 o4 o5 o6 that s1[unfolded req]])
  have b: "tasks sw = (tasks s)(next_tid s \<mapsto>
               \<lparr>waiting = OnPromise gp,
                stack = [K_getStale_shared None,
                         K_getOrSetStale key (Producer f r) options (next_ctx s)],
                target = Report cid\<rparr>)
            \<and> results sw = results s \<and> calls sw = calls s \<and> store sw = store s
            \<and> getOrSettingStale sw = getOrSettingStale s"
    if "getting s (u_key this key) = Some gp"
    using swr_shared_wait[OF o1 o2 o3 o4 that sw[unfolded req]] by simp
  have c: "results \<sigma>' = (results \<sigma>)(cid \<mapsto> Return (o_default options))
            \<and> calls \<sigma>' = calls \<sigma> \<and> store \<sigma>' = store \<sigma>
            \<and> (case getOrSettingStale \<sigma> (u_key this key) of
                  Some b \<Rightarrow> tasks \<sigma>' = (tasks \<sigma>)(t := None)
                            \<and> getOrSettingStale \<sigma>' = getOrSettingStale \<sigma>
                | None \<Rightarrow> tasks \<sigma>' = (tasks \<sigma>)(t := None, next_tid \<sigma> \<mapsto> job)
                          \<and> getOrSettingStale \<sigma>' = (getOrSettingStale \<sigma>)(u_key this key \<mapsto> True))"
    if "tasks \<sigma> t = Some \<lparr>waiting = OnPromise gp,
                               stack = [K_getStale_shared None,
                                        K_getOrSetStale key (Producer f r) options c],
                               target = Report cid\<rparr>"
      "promises \<sigma> gp = Fulfilled None"
    unfolding job by (rule swr_absent_shared[OF o5 o6 that w'])
  have d: "results \<sigma>2 = results \<sigma>j \<and> getOrSettingStale \<sigma>2 (u_key this key) = None
            \<and> calls \<sigma>2 = calls \<sigma>j @ [f] \<and> tasks \<sigma>2 = (tasks \<sigma>j)(j := None)
            \<and> (set_fails this options (resolved r po) e \<longrightarrow>
                  logged \<sigma>2 = logged \<sigma>j @ LogSetFailed key e
                                 # (case oc2 of Succeed \<Rightarrow> [] | Fail e' \<Rightarrow> [LogError e'])
                  \<and> store \<sigma>2 = (case oc2 of Succeed \<Rightarrow> (store \<sigma>j)(u_key this key := None)
                                 | Fail e' \<Rightarrow> store \<sigma>j))
            \<and> (resolved r po = Return None \<longrightarrow> store \<sigma>2 = store \<sigma>j)
            \<and> (set_writes this options (resolved r po) x ttl lv \<longrightarrow>
                  logged \<sigma>2 = logged \<sigma>j @ (case oc2 of Succeed \<Rightarrow> [] | Fail e' \<Rightarrow> [LogError e'])
                  \<and> store \<sigma>2 = (case oc2 of
                                   Succeed \<Rightarrow> (store \<sigma>j)(u_key this key \<mapsto>
                                                 \<lparr>cv_v = x, cv_c = now \<sigma>j, cv_t = ttl\<rparr>)
                                 | Fail e' \<Rightarrow> store \<sigma>j))"
    if "tasks \<sigma>j j = Some job"
      "\<forall>p. r = Gives (Thenable p) \<longrightarrow> p = U n \<and> promises \<sigma>j (U n) = Pending"
    by (rule background_job[OF that(1)[unfolded job] that(2) j2])
  show ?thesis
    by (rule conjI[OF impI conjI[OF impI conjI[OF impI impI]]])
      (erule conjE, rule a, assumption, assumption, rule b, assumption,
       erule conjE, rule c, assumption, assumption, erule conjE, rule d, assumption, assumption)
qed

text \<open>
  Claim C5, amended, on a fresh cache with a producer that returns a promise: the call
  resolves to the default, the job stores the value the promise is fulfilled with; a call
  made while a \<open>getStale\<close> of the key is in flight waits for it and resolves to the
  default; and a job whose promise rejects leaves the caller's result and logs the failure.
\<close>

theorem swr_absent_no_require_witness:
  "results (run this0
      [Call 0 (Req_getOrSet ''k'' (Producer 7 (Gives (Thenable (U 3))))
                 (swr_opts\<lparr>o_requireResult := Some False\<rparr>)),
       IoDone 0 Succeed] (init Map.empty 1000)) 0 = Some (Return (Some (JStr ''none'')))
   \<and> store (run this0 [Fire 1, Settle 3 (Return (Some (JNum 1))), Wake 1, IoDone 1 Succeed]
        (run this0
          [Call 0 (Req_getOrSet ''k'' (Producer 7 (Gives (Thenable (U 3))))
                     (swr_opts\<lparr>o_requireResult := Some False\<rparr>)),
           IoDone 0 Succeed] (init Map.empty 1000))) (u_key this0 ''k'')
     = Some \<lparr>cv_v = JNum 1, cv_c = 1000, cv_t = Some 60000\<rparr>
   \<and> results (step this0 (Wake 1)
        (run this0
          [Call 5 (Req_getStale ''k'' None no_opts),
           Call 0 (Req_getOrSet ''k'' (Producer 7 (Gives (Thenable (U 3))))
                     (swr_opts\<lparr>o_requireResult := Some False\<rparr>)),
           IoDone 0 Succeed] (init Map.empty 1000))) 0 = Some (Return (Some (JStr ''none'')))
   \<and> tasks (step this0
        (Call 0 (Req_getOrSet ''k'' (Producer 7 (Gives (Thenable (U 3))))
                   (swr_opts\<lparr>o_requireResult := Some False\<rparr>)))
        (step this0 (Call 5 (Req_getStale ''k'' None no_opts)) (init Map.empty 1000))) 1
     = Some \<lparr>waiting = OnPromise (I 0),
              stack = [K_getStale_shared None,
                       K_getOrSetStale ''k'' (Producer 7 (Gives (Thenable (U 3))))
                         (swr_opts\<lparr>o_requireResult := Some False\<rparr>) 1],
              target = Report 0\<rparr>
   \<and> results (run this0 [Fire 1, Settle 3 (Throw ''boom''), Wake 1, IoDone 1 Succeed]
        (run this0
          [Call 0 (Req_getOrSet ''k'' (Producer 7 (Gives (Thenable (U 3))))
                     (swr_opts\<lparr>o_requireResult := Some False\<rparr>)),
           IoDone 0 Succeed] (init Map.empty 1000))) 0 = Some (Return (Some (JStr ''none'')))
   \<and> logged (run this0 [Fire 1, Settle 3 (Throw ''boom''), Wake 1, IoDone 1 Succeed]
        (run this0
          [Call 0 (Req_getOrSet ''k'' (Producer 7 (Gives (Thenable (U 3))))
                     (swr_opts\<lparr>o_requireResult := Some False\<rparr>)),
           IoDone 0 Succeed] (init Map.empty 1000))) = [LogSetFailed ''k'' ''boom'']"
proof -
  let ?o = "swr_opts\<lparr>o_requireResult := Some False\<rparr>"
  let ?r = "Gives (Thenable (U 3))"
  let ?req = "Req_getOrSet ''k'' (Producer 7 ?r) ?o"
  let ?job = "\<lparr>waiting = OnTimer, stack = [K_background ''k'' (Producer 7 ?r) ?o], target = Discard\<rparr>"
  let ?s = "init Map.empty 1000"
  let ?s1 = "run this0 [Call 0 ?req, IoDone 0 Succeed] ?s"
  let ?\<sigma> = "run this0 [Call 5 (Req_getStale ''k'' None no_opts), Call 0 ?req, IoDone 0 Succeed] ?s"
  have o1: "truthy_ttl (o_staleTTL ?o)" by (simp add: swr_opts_def no_opts_def truthy_ttl_def)
  have o2: "parseTTL this0 (o_staleTTL ?o) = Inr (Some 100)"
    by (simp add: swr_opts_def no_opts_def parseTTL_def)
  have o3: "\<not> isBypassed this0" by (simp add: this0_def new_cache_def isBypassed_def)
  have o4: "\<not> o_forceUpdate ?o" by (simp add: swr_opts_def no_opts_def)
  have o5: "o_requireResult ?o = Some False" by simp
  have o6: "\<not> o_freshResult ?o" by (simp add: swr_opts_def no_opts_def)
  have n: "next_tid ?s = 0" by (simp add: init_def)
  note t = swr_absent_no_require[where this = this0 and options = ?o and key = "''k''" and f = 7
      and r = ?r and cid = 0 and s = ?s and oc = Succeed and t = 1 and \<sigma> = ?\<sigma>
      and gp = "I 0" and c = 1 and j = 1 and n = 3 and po = "Return (Some (JNum 1))"
      and ?oc2.0 = Succeed and \<sigma>j = ?s1 and x = "JNum 1" and ttl = "Some 60000"
      and lv = "Some (JNum 1)",
      OF o1 o2 o3 o4 o5 o6 refl refl refl refl refl refl]
  have hA: "getting ?s (u_key this0 ''k'') = None
            \<and> (Succeed = Succeed \<longrightarrow> store ?s (u_key this0 ''k'') = None)"
    by (simp add: init_def)
  have A: "results (run this0 [Call 0 ?req, IoDone (next_tid ?s) Succeed] ?s) 0
           = Some (Return (o_default ?o))"
    using t[THEN conjunct1, THEN mp, OF hA] by simp
  have hC: "tasks ?\<sigma> 1 = Some \<lparr>waiting = OnPromise (I 0),
                               stack = [K_getStale_shared None,
                                        K_getOrSetStale ''k'' (Producer 7 ?r) ?o 1],
                               target = Report 0\<rparr>
            \<and> promises ?\<sigma> (I 0) = Fulfilled None"
    by (simp add: machine_defs example_defs Let_def)
  have C: "results (step this0 (Wake 1) ?\<sigma>) 0 = Some (Return (o_default ?o))"
    using t[THEN conjunct2, THEN conjunct2, THEN conjunct1, THEN mp, OF hC] by simp
  have hD: "tasks ?s1 1 = Some ?job
            \<and> (\<forall>p. ?r = Gives (Thenable p) \<longrightarrow> p = U 3 \<and> promises ?s1 (U 3) = Pending)"
    by (simp add: machine_defs example_defs Let_def)
  have w: "set_writes this0 ?o (resolved ?r (Return (Some (JNum 1)))) (JNum 1) (Some 60000)
             (Some (JNum 1))"
    by (simp add: swr_opts_def no_opts_def parseTTL_def apply_fn_def)
  have now1: "now ?s1 = 1000"
    by (simp add: machine_defs example_defs Let_def)
  note d = t[THEN conjunct2, THEN conjunct2, THEN conjunct2, THEN mp, OF hD]
  have D: "store (run this0 [Fire 1, Settle 3 (Return (Some (JNum 1))), Wake 1, IoDone 1 Succeed]
             ?s1) (u_key this0 ''k'')
           = Some \<lparr>cv_v = JNum 1, cv_c = 1000, cv_t = Some 60000\<rparr>"
    using d[THEN conjunct2, THEN conjunct2, THEN conjunct2, THEN conjunct2, THEN conjunct2,
            THEN conjunct2, THEN mp, OF w] now1
    by simp
  \<comment> \<open>the call made while a read is in flight\<close>
  let ?sB = "step this0 (Call 5 (Req_getStale ''k'' None no_opts)) ?s"
  note tB = swr_absent_no_require[where this = this0 and options = ?o and key = "''k''" and f = 7
      and r = ?r and cid = 0 and s = ?sB and gp = "I 0",
      OF o1 o2 o3 o4 o5 o6 refl refl refl refl refl refl]
  have hB: "getting ?sB (u_key this0 ''k'') = Some (I 0)"
    by (simp add: machine_defs example_defs Let_def)
  have nB: "next_tid ?sB = 1" "next_ctx ?sB = 1" "tasks ?sB 1 = None"
    by (simp_all add: machine_defs example_defs Let_def)
  have B: "tasks (step this0 (Call 0 ?req) ?sB) 1
           = Some \<lparr>waiting = OnPromise (I 0),
                    stack = [K_getStale_shared None, K_getOrSetStale ''k'' (Producer 7 ?r) ?o 1],
                    target = Report 0\<rparr>"
    using tB[THEN conjunct2, THEN conjunct1, THEN mp, OF hB] nB by simp
  \<comment> \<open>a job whose producer's promise rejects\<close>
  note tF = swr_absent_no_require[where this = this0 and options = ?o and key = "''k''" and f = 7
      and r = ?r and cid = 0 and j = 1 and n = 3 and po = "Throw ''boom''"
      and ?oc2.0 = Succeed and \<sigma>j = ?s1 and e = "''boom''",
      OF o1 o2 o3 o4 o5 o6 refl refl refl refl refl refl]
  have fF: "set_fails this0 ?o (resolved ?r (Throw ''boom'')) ''boom''" by simp
  have r1: "results ?s1 0 = Some (Return (Some (JStr ''none'')))" "logged ?s1 = []"
    by (simp_all add: machine_defs example_defs Let_def)
  note f = tF[THEN conjunct2, THEN conjunct2, THEN conjunct2, THEN mp, OF hD]
  have F: "results (run this0 [Fire 1, Settle 3 (Throw ''boom''), Wake 1, IoDone 1 Succeed] ?s1) 0
             = Some (Return (Some (JStr ''none'')))
           \<and> logged (run this0 [Fire 1, Settle 3 (Throw ''boom''), Wake 1, IoDone 1 Succeed] ?s1)
             = [LogSetFailed ''k'' ''boom'']"
    using f[THEN conjunct1]
      f[THEN conjunct2, THEN conjunct2, THEN conjunct2, THEN conjunct2, THEN conjunct1, THEN mp,
        OF fF] r1
    by simp
  show ?thesis using A C D n B F by (simp add: swr_opts_def no_opts_def)
qed

text \<open>
  Claim C6, as stated, fails when the producer fails: the background job is not without
  effect then. The stale value is returned to the caller, but the failed job deletes the
  stored entry, and a later \<open>get\<close> gives the default (undefined), not the stale value.
  Nor is the stale value returned in every call on a stale entry: with \<open>forceUpdate\<close> and
  on a bypassed cache the call resolves to the produced value, and with a \<open>staleTTL\<close>
  that does not parse it rejects.
\<close>

theorem swr_failed_refresh_counterexample:
  "results (run this0
      [Call 0 (Req_getOrSet ''k'' (Producer 7 (Throws ''boom'')) swr_opts), IoDone 0 Succeed,
       Fire 1, IoDone 1 Succeed, Call 1 (Req_get ''k'' None no_opts), IoDone 2 Succeed]
      (init [u_key this0 ''k'' \<mapsto> old_entry] 1000)) 0 = Some (Return (Some (JNum 1)))
   \<and> store (run this0
      [Call 0 (Req_getOrSet ''k'' (Producer 7 (Throws ''boom'')) swr_opts), IoDone 0 Succeed,
       Fire 1, IoDone 1 Succeed]
      (init [u_key this0 ''k'' \<mapsto> old_entry] 1000)) (u_key this0 ''k'') = None
   \<and> results (run this0
      [Call 0 (Req_getOrSet ''k'' (Producer 7 (Throws ''boom'')) swr_opts), IoDone 0 Succeed,
       Fire 1, IoDone 1 Succeed, Call 1 (Req_get ''k'' None no_opts), IoDone 2 Succeed]
      (init [u_key this0 ''k'' \<mapsto> old_entry] 1000)) 1 = Some (Return None)
   \<and> results (run this0
      [Call 0 (Req_getOrSet ''k'' (Producer 7 (Throws ''boom'')) swr_opts), IoDone 0 Succeed,
       Call 1 (Req_get ''k'' None no_opts), IoDone 2 Succeed]
      (init [u_key this0 ''k'' \<mapsto> old_entry] 1000)) 1 = Some (Return (Some (JNum 1)))
   \<and> results (run this0
      [Call 0 (Req_getOrSet ''k'' (Producer 7 (Gives (Plain (JNum 2))))
                 (swr_opts\<lparr>o_forceUpdate := True\<rparr>)), IoDone 0 Succeed]
      (init [u_key this0 ''k'' \<mapsto> old_entry] 1000)) 0 = Some (Return (Some (JNum 2)))
   \<and> results (run (this0\<lparr>inst_bypass := Some True\<rparr>)
      [Call 0 (Req_getOrSet ''k'' (Producer 7 (Gives (Plain (JNum 2)))) swr_opts)]
      (init [u_key (this0\<lparr>inst_bypass := Some True\<rparr>) ''k'' \<mapsto> old_entry] 1000)) 0
     = Some (Return (Some (JNum 2)))
   \<and> results (run this0
      [Call 0 (Req_getOrSet ''k'' (Producer 7 (Gives (Plain (JNum 2))))
                 (swr_opts\<lparr>o_staleTTL := Some (Str ''abc'')\<rparr>))]
      (init [u_key this0 ''k'' \<mapsto> old_entry] 1000)) 0 = Some (Throw ''unit not supported'')"
  by (simp add: machine_defs example_defs Let_def)

text \<open>
  Claim C6, amended. For a stale-while-revalidate \<open>getOrSet\<close> (a \<open>staleTTL\<close> that
  parses to a nonzero time, \<open>freshResult\<close> and \<open>forceUpdate\<close> not set, cache not
  bypassed), from any state. When no read of the key is in flight and the entry is
  present, not expired and stale, the call resolves to the cached value when the read
  completes (\<open>s1\<close>), the producer has not run and nothing is stored; when a refresh of the
  key is registered no job is scheduled, otherwise the key is registered and exactly one
  job is scheduled. When a read of the key is in flight, the call waits for its promise
  (\<open>sw\<close>) and resolves to the value that read gives (\<open>\<sigma>'\<close>), and no job is scheduled.
  When a scheduled job has run (\<open>\<sigma>2\<close>), whatever the producer gives: the producer has
  been called once, no caller's result has changed (errors reach no caller), the
  registration is removed, and its effect on the backend is that of the \<open>set\<close> it runs:
  a failure (a throw, a rejected promise, a \<open>ttl\<close> that does not parse, a \<open>process\<close>
  that throws) is logged and has the key deleted, an undefined value changes no entry, and
  a value replaces the entry unless the backend write fails, which is logged.
\<close>

theorem swr_stale_refresh:
  assumes o1: "truthy_ttl (o_staleTTL options)"
    and o2: "parseTTL this (o_staleTTL options) = Inr (Some st)" and o3: "st \<noteq> 0"
    and o4: "\<not> isBypassed this" and o5: "\<not> o_forceUpdate options"
    and o6: "\<not> o_freshResult options"
    and req: "req = Req_getOrSet key (Producer f r) options"
    and job: "job = \<lparr>waiting = OnTimer, stack = [K_background key (Producer f r) options],
                     target = Discard\<rparr>"
    and s1: "s1 = run this [Call cid req, IoDone (next_tid s) Succeed] s"
    and sw: "sw = step this (Call cid req) s"
    and w': "\<sigma>' = step this (Wake t) \<sigma>"
    and j2: "\<sigma>2 = run this [Fire j, Settle n po, Wake j, IoDone j oc2] \<sigma>j"
  shows "(getting s (u_key this key) = None \<and> store s (u_key this key) = Some ent
          \<and> \<not> (truthy_num (cv_t ent) \<and> cv_c ent < now s - the (cv_t ent))
          \<and> cv_c ent < now s - st
          \<and> apply_fn (o_fromJSON options) (Some (cv_v ent)) = Inr xj
          \<and> apply_fn (o_process options) xj = Inr (Some y) \<longrightarrow>
            results s1 cid = Some (Return (Some y)) \<and> calls s1 = calls s
            \<and> store s1 = store s
            \<and> (case getOrSettingStale s (u_key this key) of
                  Some b \<Rightarrow> tasks s1 = (tasks s)(next_tid s := None)
                            \<and> getOrSettingStale s1 = getOrSettingStale s
                | None \<Rightarrow> tasks s1 = (tasks s)(next_tid s := None, Suc (next_tid s) \<mapsto> job)
                          \<and> getOrSettingStale s1 = (getOrSettingStale s)(u_key this key \<mapsto> True)))
       \<and> (getting s (u_key this key) = Some gp \<longrightarrow>
            tasks sw = (tasks s)(next_tid s \<mapsto>
               \<lparr>waiting = OnPromise gp,
                stack = [K_getStale_shared None,
                         K_getOrSetStale key (Producer f r) options (next_ctx s)],
                target = Report cid\<rparr>)
            \<and> \<not> ctx_isStale (ctxs sw (next_ctx s))
            \<and> results sw = results s \<and> calls sw = calls s \<and> store sw = store s
            \<and> getOrSettingStale sw = getOrSettingStale s)
       \<and> (tasks \<sigma> t = Some \<lparr>waiting = OnPromise gp,
                               stack = [K_getStale_shared None,
                                        K_getOrSetStale key (Producer f r) options c],
                               target = Report cid\<rparr>
          \<and> promises \<sigma> gp = Fulfilled (Some v) \<and> \<not> ctx_isStale (ctxs \<sigma> c) \<longrightarrow>
            results \<sigma>' = (results \<sigma>)(cid \<mapsto> Return (Some v))
            \<and> calls \<sigma>' = calls \<sigma> \<and> store \<sigma>' = store \<sigma>
            \<and> tasks \<sigma>' = (tasks \<sigma>)(t := None)
            \<and> getOrSettingStale \<sigma>' = getOrSettingStale \<sigma>)
       \<and> (tasks \<sigma>j j = Some job
          \<and> (\<forall>p. r = Gives (Thenable p) \<longrightarrow> p = U n \<and> promises \<sigma>j (U n) = Pending) \<longrightarrow>
            results \<sigma>2 = results \<sigma>j \<and> getOrSettingStale \<sigma>2 (u_key this key) = None
            \<and> calls \<sigma>2 = calls \<sigma>j @ [f] \<and> tasks \<sigma>2 = (tasks \<sigma>j)(j := None)
            \<and> (set_fails this options (resolved r po) e \<longrightarrow>
                  logged \<sigma>2 = logged \<sigma>j @ LogSetFailed key e
                                 # (case oc2 of Succeed \<Rightarrow> [] | Fail e' \<Rightarrow> [LogError e'])
                  \<and> store \<sigma>2 = (case oc2 of Succeed \<Rightarrow> (store \<sigma>j)(u_key this key := None)
                                 | Fail e' \<Rightarrow> store \<sigma>j))
            \<and> (resolved r po = Return None \<longrightarrow> store \<sigma>2 = store \<sigma>j)
            \<and> (set_writes this options (resolved r po) x ttl lv \<longrightarrow>
                  logged \<sigma>2 = logged \<sigma>j @ (case oc2 of Succeed \<Rightarrow> [] | Fail e' \<Rightarrow> [LogError e'])
                  \<and> store \<sigma>2 = (case oc2 of
                                   Succeed \<Rightarrow> (store \<sigma>j)(u_key this key \<mapsto>
                                                 \<lparr>cv_v = x, cv_c = now \<sigma>j, cv_t = ttl\<rparr>)
                                 | Fail e' \<Rightarrow> store \<sigma>j)))"
proof -
  have a: "results s1 cid = Some (Return (Some y)) \<and> calls s1 = calls s
            \<and> store s1 = store s
            \<and> (case getOrSettingStale s (u_key this key) of
                  Some b \<Rightarrow> tasks s1 = (tasks s)(next_tid s := None)
                            \<and> getOrSettingStale s1 = getOrSettingStale s
                | None \<Rightarrow> tasks s1 = (tasks s)(next_tid s := None, Suc (next_tid s) \<mapsto> job)
                          \<and> getOrSettingStale s1 = (getOrSettingStale s)(u_key this key \<mapsto> True))"
    if "getting s (u_key this key) = None \<and> store s (u_key this key) = Some ent
          \<and> \<not> (truthy_num (cv_t ent) \<and> cv_c ent < now s - the (cv_t ent))
          \<and> cv_c ent < now s - st
          \<and> apply_fn (o_fromJSON options) (Some (cv_v ent)) = Inr xj
          \<and> apply_fn (o_process options) xj = Inr (Some y)"
  proof -
    have h: "getting s (u_key this key) = None" "store s (u_key this key) = Some ent"
      "\<not> (truthy_num (cv_t ent) \<and> cv_c ent < now s - the (cv_t ent))"
      "cv_c ent < now s - st"
      "apply_fn (o_fromJSON options) (Some (cv_v ent)) = Inr xj"
      "apply_fn (o_process options) xj = Inr (Some y)"
      using that by blast+
    show ?thesis unfolding job by (rule swr_stale_own[OF o1 o2 o3 o4 o5 o6 h s1[unfolded req]])
  qed
  have b: "tasks sw = (tasks s)(next_tid s \<mapsto>
               \<lparr>waiting = OnPromise gp,
                stack = [K_getStale_shared None,
                         K_getOrSetStale key (Producer f r) options (next_ctx s)],
                target = Report cid\<rparr>)
            \<and> \<not> ctx_isStale (ctxs sw (next_ctx s))
            \<and> results sw = results s \<and> calls sw = calls s \<and> store sw = store s
            \<and> getOrSettingStale sw = getOrSettingStale s"
    if "getting s (u_key this key) = Some gp"
    by (rule swr_shared_wait[OF o1 o2 o4 o5 that sw[unfolded req]])
  have c: "results \<sigma>' = (results \<sigma>)(cid \<mapsto> Return (Some v))
            \<and> calls \<sigma>' = calls \<sigma> \<and> store \<sigma>' = store \<sigma>
            \<and> tasks \<sigma>' = (tasks \<sigma>)(t := None)
            \<and> getOrSettingStale \<sigma>' = getOrSettingStale \<sigma>"
    if "tasks \<sigma> t = Some \<lparr>waiting = OnPromise gp,
                               stack = [K_getStale_shared None,
                                        K_getOrSetStale key (Producer f r) options c],
                               target = Report cid\<rparr>
          \<and> promises \<sigma> gp = Fulfilled (Some v) \<and> \<not> ctx_isStale (ctxs \<sigma> c)"
  proof -
    have h: "tasks \<sigma> t = Some \<lparr>waiting = OnPromise gp,
                               stack = [K_getStale_shared None,
                                        K_getOrSetStale key (Producer f r) options c],
                               target = Report cid\<rparr>"
      "promises \<sigma> gp = Fulfilled (Some v)" "\<not> ctx_isStale (ctxs \<sigma> c)"
      using that by blast+
    show ?thesis by (rule swr_stale_shared[OF h w'])
  qed
  have d: "results \<sigma>2 = results \<sigma>j \<and> getOrSettingStale \<sigma>2 (u_key this key) = None
            \<and> calls \<sigma>2 = calls \<sigma>j @ [f] \<and> tasks \<sigma>2 = (tasks \<sigma>j)(j := None)
            \<and> (set_fails this options (resolved r po) e \<longrightarrow>
                  logged \<sigma>2 = logged \<sigma>j @ LogSetFailed key e
                                 # (case oc2 of Succeed \<Rightarrow> [] | Fail e' \<Rightarrow> [LogError e'])
                  \<and> store \<sigma>2 = (case oc2 of Succeed \<Rightarrow> (store \<sigma>j)(u_key this key := None)
                                 | Fail e' \<Rightarrow> store \<sigma>j))
            \<and> (resolved r po = Return None \<longrightarrow> store \<sigma>2 = store \<sigma>j)
            \<and> (set_writes this options (resolved r po) x ttl lv \<longrightarrow>
                  logged \<sigma>2 = logged \<sigma>j @ (case oc2 of Succeed \<Rightarrow> [] | Fail e' \<Rightarrow> [LogError e'])
                  \<and> store \<sigma>2 = (case oc2 of
                                   Succeed \<Rightarrow> (store \<sigma>j)(u_key this key \<mapsto>
                                                 \<lparr>cv_v = x, cv_c = now \<sigma>j, cv_t = ttl\<rparr>)
                                 | Fail e' \<Rightarrow> store \<sigma>j))"
    if "tasks \<sigma>j j = Some job
          \<and> (\<forall>p. r = Gives (Thenable p) \<longrightarrow> p = U n \<and> promises \<sigma>j (U n) = Pending)"
    by (rule background_job[OF conjunct1[OF that, unfolded job] conjunct2[OF that] j2])
  show ?thesis
    by (rule conjI[OF impI conjI[OF impI conjI[OF impI impI]]])
      (rule a, assumption, rule b, assumption, rule c, assumption, rule d, assumption)
qed

text \<open>
  Claim C6, amended, on a cache that holds a stale entry, with a producer that returns a
  promise: the call resolves to the cached value and one job is scheduled; a second call
  schedules none; the job replaces the entry with the value the promise is fulfilled with;
  a call made while a \<open>getStale\<close> of the key is in flight resolves to the value of that
  read and schedules nothing; a job whose promise rejects deletes the entry.
\<close>

theorem swr_stale_refresh_witness:
  "results (run this0
      [Call 0 (Req_getOrSet ''k'' (Producer 7 (Gives (Thenable (U 3)))) swr_opts),
       IoDone 0 Succeed] (init [u_key this0 ''k'' \<mapsto> old_entry] 1000)) 0
     = Some (Return (Some (JNum 1)))
   \<and> tasks (run this0
      [Call 0 (Req_getOrSet ''k'' (Producer 7 (Gives (Thenable (U 3)))) swr_opts),
       IoDone 0 Succeed] (init [u_key this0 ''k'' \<mapsto> old_entry] 1000))
     = [1 \<mapsto> \<lparr>waiting = OnTimer,
               stack = [K_background ''k'' (Producer 7 (Gives (Thenable (U 3)))) swr_opts],
               target = Discard\<rparr>]
   \<and> tasks (run this0
      [Call 0 (Req_getOrSet ''k'' (Producer 7 (Gives (Thenable (U 3)))) swr_opts),
       IoDone 0 Succeed,
       Call 1 (Req_getOrSet ''k'' (Producer 7 (Gives (Thenable (U 3)))) swr_opts),
       IoDone 2 Succeed] (init [u_key this0 ''k'' \<mapsto> old_entry] 1000))
     = [1 \<mapsto> \<lparr>waiting = OnTimer,
               stack = [K_background ''k'' (Producer 7 (Gives (Thenable (U 3)))) swr_opts],
               target = Discard\<rparr>]
   \<and> store (run this0 [Fire 1, Settle 3 (Return (Some (JNum 2))), Wake 1, IoDone 1 Succeed]
        (run this0
          [Call 0 (Req_getOrSet ''k'' (Producer 7 (Gives (Thenable (U 3)))) swr_opts),
           IoDone 0 Succeed] (init [u_key this0 ''k'' \<mapsto> old_entry] 1000))) (u_key this0 ''k'')
     = Some \<lparr>cv_v = JNum 2, cv_c = 1000, cv_t = Some 60000\<rparr>
   \<and> results (step this0 (Wake 1)
        (run this0
          [Call 5 (Req_getStale ''k'' None no_opts),
           Call 0 (Req_getOrSet ''k'' (Producer 7 (Gives (Thenable (U 3)))) swr_opts),
           IoDone 0 Succeed] (init [u_key this0 ''k'' \<mapsto> old_entry] 1000))) 0
     = Some (Return (Some (JNum 1)))
   \<and> tasks (step this0 (Wake 1)
        (run this0
          [Call 5 (Req_getStale ''k'' None no_opts),
           Call 0 (Req_getOrSet ''k'' (Producer 7 (Gives (Thenable (U 3)))) swr_opts),
           IoDone 0 Succeed] (init [u_key this0 ''k'' \<mapsto> old_entry] 1000))) = Map.empty
   \<and> tasks (step this0
        (Call 0 (Req_getOrSet ''k'' (Producer 7 (Gives (Thenable (U 3)))) swr_opts))
        (step this0 (Call 5 (Req_getStale ''k'' None no_opts))
           (init [u_key this0 ''k'' \<mapsto> old_entry] 1000))) 1
     = Some \<lparr>waiting = OnPromise (I 0),
              stack = [K_getStale_shared None,
                       K_getOrSetStale ''k'' (Producer 7 (Gives (Thenable (U 3)))) swr_opts 1],
              target = Report 0\<rparr>
   \<and> store (run this0 [Fire 1, Settle 3 (Throw ''boom''), Wake 1, IoDone 1 Succeed]
        (run this0
          [Call 0 (Req_getOrSet ''k'' (Producer 7 (Gives (Thenable (U 3)))) swr_opts),
           IoDone 0 Succeed] (init [u_key this0 ''k'' \<mapsto> old_entry] 1000))) (u_key this0 ''k'')
     = None"
proof -
  let ?o = "swr_opts"
  let ?r = "Gives (Thenable (U 3))"
  let ?req = "Req_getOrSet ''k'' (Producer 7 ?r) ?o"
  let ?job = "\<lparr>waiting = OnTimer, stack = [K_background ''k'' (Producer 7 ?r) ?o], target = Discard\<rparr>"
  let ?s = "init [u_key this0 ''k'' \<mapsto> old_entry] 1000"
  let ?s1 = "run this0 [Call 0 ?req, IoDone 0 Succeed] ?s"
  let ?\<sigma> = "run this0 [Call 5 (Req_getStale ''k'' None no_opts), Call 0 ?req, IoDone 0 Succeed] ?s"
  have o1: "truthy_ttl (o_staleTTL ?o)" by (simp add: swr_opts_def no_opts_def truthy_ttl_def)
  have o2: "parseTTL this0 (o_staleTTL ?o) = Inr (Some 100)"
    by (simp add: swr_opts_def no_opts_def parseTTL_def)
  have o3: "(100::int) \<noteq> 0" by simp
  have o4: "\<not> isBypassed this0" by (simp add: this0_def new_cache_def isBypassed_def)
  have o5: "\<not> o_forceUpdate ?o" by (simp add: swr_opts_def no_opts_def)
  have o6: "\<not> o_freshResult ?o" by (simp add: swr_opts_def no_opts_def)
  have n: "next_tid ?s = 0" "next_tid ?s1 = 2" by (simp_all add: machine_defs example_defs Let_def)
  note t = swr_stale_refresh[where this = this0 and options = ?o and key = "''k''" and f = 7
      and r = ?r and cid = 0 and s = ?s and t = 1 and \<sigma> = ?\<sigma>
      and gp = "I 0" and c = 1 and j = 1 and n = 3 and po = "Return (Some (JNum 2))"
      and ?oc2.0 = Succeed and \<sigma>j = ?s1 and x = "JNum 2" and ttl = "Some 60000"
      and lv = "Some (JNum 2)" and ent = old_entry and xj = "Some (JNum 1)" and y = "JNum 1"
      and v = "JNum 1",
      OF o1 o2 o3 o4 o5 o6 refl refl refl refl refl refl]
  note t' = swr_stale_refresh[where this = this0 and options = ?o and key = "''k''" and f = 7
      and r = ?r and cid = 1 and s = ?s1 and ent = old_entry and xj = "Some (JNum 1)"
      and y = "JNum 1",
      OF o1 o2 o3 o4 o5 o6 refl refl refl refl refl refl]
  have hA: "getting ?s (u_key this0 ''k'') = None \<and> store ?s (u_key this0 ''k'') = Some old_entry
          \<and> \<not> (truthy_num (cv_t old_entry) \<and> cv_c old_entry < now ?s - the (cv_t old_entry))
          \<and> cv_c old_entry < now ?s - 100
          \<and> apply_fn (o_fromJSON ?o) (Some (cv_v old_entry)) = Inr (Some (JNum 1))
          \<and> apply_fn (o_process ?o) (Some (JNum 1)) = Inr (Some (JNum 1))"
    by (simp add: init_def old_entry_def truthy_num_def swr_opts_def no_opts_def apply_fn_def)
  have hA': "getting ?s1 (u_key this0 ''k'') = None \<and> store ?s1 (u_key this0 ''k'') = Some old_entry
          \<and> \<not> (truthy_num (cv_t old_entry) \<and> cv_c old_entry < now ?s1 - the (cv_t old_entry))
          \<and> cv_c old_entry < now ?s1 - 100
          \<and> apply_fn (o_fromJSON ?o) (Some (cv_v old_entry)) = Inr (Some (JNum 1))
          \<and> apply_fn (o_process ?o) (Some (JNum 1)) = Inr (Some (JNum 1))"
    by (simp add: machine_defs example_defs Let_def)
  have reg: "getOrSettingStale ?s (u_key this0 ''k'') = None"
    "getOrSettingStale ?s1 (u_key this0 ''k'') = Some True" "tasks ?s = Map.empty"
    by (simp_all add: machine_defs example_defs Let_def)
  have A: "results ?s1 0 = Some (Return (Some (JNum 1))) \<and> tasks ?s1 = [1 \<mapsto> ?job]"
    using t[THEN conjunct1, THEN mp, OF hA] reg n by simp
  have A': "tasks (run this0 [Call 1 ?req, IoDone 2 Succeed] ?s1) = [1 \<mapsto> ?job]"
    using t'[THEN conjunct1, THEN mp, OF hA'] reg n A by simp
  have hC: "tasks ?\<sigma> 1 = Some \<lparr>waiting = OnPromise (I 0),
                               stack = [K_getStale_shared None,
                                        K_getOrSetStale ''k'' (Producer 7 ?r) ?o 1],
                               target = Report 0\<rparr>
            \<and> promises ?\<sigma> (I 0) = Fulfilled (Some (JNum 1)) \<and> \<not> ctx_isStale (ctxs ?\<sigma> 1)"
    by (simp add: machine_defs example_defs Let_def)
  have tC: "tasks ?\<sigma> = [1 \<mapsto> \<lparr>waiting = OnPromise (I 0),
                               stack = [K_getStale_shared None,
                                        K_getOrSetStale ''k'' (Producer 7 ?r) ?o 1],
                               target = Report 0\<rparr>]"
    by (simp add: machine_defs example_defs Let_def)
  have C: "results (step this0 (Wake 1) ?\<sigma>) 0 = Some (Return (Some (JNum 1)))
           \<and> tasks (step this0 (Wake 1) ?\<sigma>) = Map.empty"
    using t[THEN conjunct2, THEN conjunct2, THEN conjunct1, THEN mp, OF hC] tC by simp
  have hD: "tasks ?s1 1 = Some ?job
            \<and> (\<forall>p. ?r = Gives (Thenable p) \<longrightarrow> p = U 3 \<and> promises ?s1 (U 3) = Pending)"
    by (simp add: machine_defs example_defs Let_def)
  have w: "set_writes this0 ?o (resolved ?r (Return (Some (JNum 2)))) (JNum 2) (Some 60000)
             (Some (JNum 2))"
    by (simp add: swr_opts_def no_opts_def parseTTL_def apply_fn_def)
  have now1: "now ?s1 = 1000"
    by (simp add: machine_defs example_defs Let_def)
  note d = t[THEN conjunct2, THEN conjunct2, THEN conjunct2, THEN mp, OF hD]
  have D: "store (run this0 [Fire 1, Settle 3 (Return (Some (JNum 2))), Wake 1, IoDone 1 Succeed]
             ?s1) (u_key this0 ''k'')
           = Some \<lparr>cv_v = JNum 2, cv_c = 1000, cv_t = Some 60000\<rparr>"
    using d[THEN conjunct2, THEN conjunct2, THEN conjunct2, THEN conjunct2, THEN conjunct2,
            THEN conjunct2, THEN mp, OF w] now1
    by simp
  have app: "run this0 [Call 0 ?req, IoDone 0 Succeed, Call 1 ?req, IoDone 2 Succeed] ?s
             = run this0 [Call 1 ?req, IoDone 2 Succeed] ?s1"
    by simp
  \<comment> \<open>the call made while a read is in flight\<close>
  let ?sB = "step this0 (Call 5 (Req_getStale ''k'' None no_opts)) ?s"
  note tB = swr_stale_refresh[where this = this0 and options = ?o and key = "''k''" and f = 7
      and r = ?r and cid = 0 and s = ?sB and gp = "I 0",
      OF o1 o2 o3 o4 o5 o6 refl refl refl refl refl refl]
  have hB: "getting ?sB (u_key this0 ''k'') = Some (I 0)"
    by (simp add: machine_defs example_defs Let_def)
  have nB: "next_tid ?sB = 1" "next_ctx ?sB = 1" "tasks ?sB 1 = None"
    by (simp_all add: machine_defs example_defs Let_def)
  have B: "tasks (step this0 (Call 0 ?req) ?sB) 1
           = Some \<lparr>waiting = OnPromise (I 0),
                    stack = [K_getStale_shared None, K_getOrSetStale ''k'' (Producer 7 ?r) ?o 1],
                    target = Report 0\<rparr>"
    using tB[THEN conjunct2, THEN conjunct1, THEN mp, OF hB] nB by simp
  \<comment> \<open>a job whose producer's promise rejects\<close>
  note tF = swr_stale_refresh[where this = this0 and options = ?o and key = "''k''" and f = 7
      and r = ?r and cid = 0 and j = 1 and n = 3 and po = "Throw ''boom''"
      and ?oc2.0 = Succeed and \<sigma>j = ?s1 and e = "''boom''",
      OF o1 o2 o3 o4 o5 o6 refl refl refl refl refl refl]
  have fF: "set_fails this0 ?o (resolved ?r (Throw ''boom'')) ''boom''" by simp
  have F: "store (run this0 [Fire 1, Settle 3 (Throw ''boom''), Wake 1, IoDone 1 Succeed] ?s1)
             (u_key this0 ''k'') = None"
    using tF[THEN conjunct2, THEN conjunct2, THEN conjunct2, THEN mp, OF hD,
             THEN conjunct2, THEN conjunct2, THEN conjunct2, THEN conjunct2, THEN conjunct1,
             THEN mp, OF fF]
    by simp
  show ?thesis using A A' C D B F unfolding app by simp
qed

subsection \<open>Entries of the in-flight maps after a rejection\<close>

text \<open>
  Claim C1 at a failing input. A \<open>getOrSet\<close> whose producer throws rejects and leaves its
  promise, rejected, in the \<open>getOrSetting\<close> map: no task is left that would remove it. A
  later \<open>getOrSet\<close> on the key, with a producer that would succeed, finds that promise and
  rejects with the old error without calling its producer. Likewise a \<open>getStale\<close> whose
  \<open>process\<close> fails leaves its rejected promise in the \<open>getting\<close> map, and a later
  \<open>get\<close> of the key rejects with it.
\<close>

theorem rejected_promise_stays_registered:
  "results (run this0
      [Call 0 (Req_getOrSet ''k'' (Producer 7 (Throws ''boom'')) no_opts),
       IoDone 0 Succeed, IoDone 0 Succeed] (init Map.empty 1000)) 0 = Some (Throw ''boom'')
   \<and> getOrSetting (run this0
      [Call 0 (Req_getOrSet ''k'' (Producer 7 (Throws ''boom'')) no_opts),
       IoDone 0 Succeed, IoDone 0 Succeed] (init Map.empty 1000)) (u_key this0 ''k'') = Some (I 1)
   \<and> promises (run this0
      [Call 0 (Req_getOrSet ''k'' (Producer 7 (Throws ''boom'')) no_opts),
       IoDone 0 Succeed, IoDone 0 Succeed] (init Map.empty 1000)) (I 1) = Rejected ''boom''
   \<and> tasks (run this0
      [Call 0 (Req_getOrSet ''k'' (Producer 7 (Throws ''boom'')) no_opts),
       IoDone 0 Succeed, IoDone 0 Succeed] (init Map.empty 1000)) = Map.empty
   \<and> results (run this0
      [Call 0 (Req_getOrSet ''k'' (Producer 7 (Throws ''boom'')) no_opts),
       IoDone 0 Succeed, IoDone 0 Succeed,
       Call 1 (Req_getOrSet ''k'' (Producer 8 (Gives (Plain (JNum 1)))) no_opts), Wake 1]
      (init Map.empty 1000)) 1 = Some (Throw ''boom'')
   \<and> calls (run this0
      [Call 0 (Req_getOrSet ''k'' (Producer 7 (Throws ''boom'')) no_opts),
       IoDone 0 Succeed, IoDone 0 Succeed,
       Call 1 (Req_getOrSet ''k'' (Producer 8 (Gives (Plain (JNum 1)))) no_opts), Wake 1]
      (init Map.empty 1000)) = [7]
   \<and> getting (run this0
      [Call 0 (Req_getStale ''k'' None failing_process), IoDone 0 Succeed]
      (init [u_key this0 ''k'' \<mapsto> old_entry] 1000)) (u_key this0 ''k'') = Some (I 0)
   \<and> tasks (run this0
      [Call 0 (Req_getStale ''k'' None failing_process), IoDone 0 Succeed]
      (init [u_key this0 ''k'' \<mapsto> old_entry] 1000)) = Map.empty
   \<and> results (run this0
      [Call 0 (Req_getStale ''k'' None failing_process), IoDone 0 Succeed,
       Call 1 (Req_get ''k'' None no_opts), Wake 1]
      (init [u_key this0 ''k'' \<mapsto> old_entry] 1000)) 1 = Some (Throw ''bad'')"
  by (simp add: machine_defs example_defs Let_def)

subsection \<open>markStale\<close>

text \<open>
  Claim C3 at a failing input: an entry with a \<open>ttl\<close> of one minute, written one second
  ago. A \<open>get\<close> returns its value. \<open>markStale\<close> rewrites the entry with \<open>c = 0\<close> and the
  same value and \<open>t\<close>. The next \<open>get\<close> finds \<open>c\<close> older than \<open>t\<close>: the entry counts as
  expired, \<open>get\<close> returns undefined and the entry is deleted. The same entry without a
  \<open>ttl\<close> is still returned by \<open>get\<close> after \<open>markStale\<close>.
\<close>

theorem markStale_expires_entry_with_ttl:
  "results (run this0 [Call 0 (Req_get ''k'' None no_opts), IoDone 0 Succeed]
      (init [u_key this0 ''k'' \<mapsto> ttl_entry] 1000000)) 0 = Some (Return (Some (JNum 1)))
   \<and> store (run this0 [Call 0 (Req_markStale (One ''k'')), IoDone 0 Succeed]
      (init [u_key this0 ''k'' \<mapsto> ttl_entry] 1000000)) (u_key this0 ''k'')
     = Some \<lparr>cv_v = JNum 1, cv_c = 0, cv_t = Some 60000\<rparr>
   \<and> results (run this0 [Call 0 (Req_markStale (One ''k'')), IoDone 0 Succeed,
                         Call 1 (Req_get ''k'' None no_opts), IoDone 1 Succeed]
      (init [u_key this0 ''k'' \<mapsto> ttl_entry] 1000000)) 1 = Some (Return None)
   \<and> store (run this0 [Call 0 (Req_markStale (One ''k'')), IoDone 0 Succeed,
                       Call 1 (Req_get ''k'' None no_opts), IoDone 1 Succeed, IoDone 2 Succeed]
      (init [u_key this0 ''k'' \<mapsto> ttl_entry] 1000000)) (u_key this0 ''k'') = None
   \<and> results (run this0 [Call 0 (Req_markStale (One ''k'')), IoDone 0 Succeed,
                         Call 1 (Req_get ''k'' None no_opts), IoDone 1 Succeed]
      (init [u_key this0 ''k'' \<mapsto> ttl_entry\<lparr>cv_t := None\<rparr>] 1000000)) 1
     = Some (Return (Some (JNum 1)))"
  by (simp add: machine_defs example_defs Let_def)

subsection \<open>Concurrent callers of getOrSet\<close>

lemmas phase_defs = others_follow_def in_flight_def leader_def tail_frames_def
  reading_def producing_def writing_def failing_def settled_def settled_with_def pstate_of_def

lemma is_follower_None [simp]: "is_follower options None"
  by (simp add: is_follower_def)

lemma waits_for_leader [simp]: "waits_for (m(0 := x)) c = waits_for m c"
  by (auto simp: waits_for_def)

lemma init_reading:
  assumes "st (u_key this key) = None" "\<not> isBypassed this" "\<not> truthy_ttl (o_staleTTL options)"
    "\<not> o_forceUpdate options"
  shows "reading this key f r options c0 {}
           (step this (Call c0 (Req_getOrSet key (Producer f r) options)) (init st t0))"
  using assms by (auto simp: machine_defs phase_defs init_def Let_def)

lemma reading_IoDone:
  assumes "reading this key f r options c0 C s" "o_process options = None"
  shows "producing this key f r options c0 C (step this (IoDone 0 oc) s)
         \<or> writing this key f r options c0 C (step this (IoDone 0 oc) s)
         \<or> failing this key f r options c0 C (step this (IoDone 0 oc) s)
         \<or> settled this key f r options c0 C (step this (IoDone 0 oc) s)"
proof (cases r)
  case (Throws e)
  then have "failing this key f r options c0 C (step this (IoDone 0 oc) s)"
    using assms by (cases oc) (auto simp: machine_defs phase_defs Let_def)
  then show ?thesis by simp
next
  case (Gives d)
  show ?thesis
  proof (cases d)
    case Undefined
    then have "settled this key f r options c0 C (step this (IoDone 0 oc) s)"
      using assms Gives by (cases oc) (auto simp: machine_defs phase_defs Let_def)
    then show ?thesis by simp
  next
    case (Plain x)
    show ?thesis
    proof (cases "parseTTL this (o_ttl options)")
      case (Inl e)
      then have "failing this key f r options c0 C (step this (IoDone 0 oc) s)"
        using assms Gives Plain by (cases oc) (auto simp: run_defs apply_fn_def phase_defs Let_def)
      then show ?thesis by simp
    next
      case (Inr ttl)
      then have "writing this key f r options c0 C (step this (IoDone 0 oc) s)"
        using assms Gives Plain by (cases oc) (auto simp: run_defs apply_fn_def phase_defs Let_def)
      then show ?thesis by simp
    qed
  next
    case (Thenable p)
    then have "producing this key f r options c0 C (step this (IoDone 0 oc) s)"
      using assms Gives by (cases oc) (auto simp: machine_defs phase_defs Let_def)
    then show ?thesis by simp
  qed
qed

lemma producing_Wake:
  assumes "producing this key f r options c0 C s" "o_process options = None"
    "r = Gives (Thenable p)" "promises s p \<noteq> Pending"
  shows "writing this key f r options c0 C (step this (Wake 0) s)
         \<or> failing this key f r options c0 C (step this (Wake 0) s)
         \<or> settled this key f r options c0 C (step this (Wake 0) s)"
proof -
  have p: "leader s c0 (OnPromise p) (K_set_resolved key options 1 # tail_frames key options)"
    using assms(1,3) by (auto simp: producing_def)
  show ?thesis
  proof (cases "promises s p")
    case Pending
    then show ?thesis using assms(4) by simp
  next
    case (Fulfilled x)
    show ?thesis
    proof (cases x)
      case None
      then have "settled this key f r options c0 C (step this (Wake 0) s)"
        using assms(1,2,3) p Fulfilled by (auto simp: machine_defs phase_defs Let_def)
      then show ?thesis by simp
    next
      case (Some y)
      show ?thesis
      proof (cases "parseTTL this (o_ttl options)")
        case (Inl e)
        then have "failing this key f r options c0 C (step this (Wake 0) s)"
          using assms(1,2,3) p Fulfilled Some
          by (auto simp: run_defs apply_fn_def phase_defs Let_def)
        then show ?thesis by simp
      next
        case (Inr ttl)
        then have "writing this key f r options c0 C (step this (Wake 0) s)"
          using assms(1,2,3) p Fulfilled Some
          by (auto simp: run_defs apply_fn_def phase_defs Let_def)
        then show ?thesis by simp
      qed
    qed
  next
    case (Rejected e)
    then have "failing this key f r options c0 C (step this (Wake 0) s)"
      using assms(1,2,3) p by (auto simp: machine_defs phase_defs Let_def)
    then show ?thesis by simp
  qed
qed

lemma producing_Wake_pending:
  assumes "producing this key f r options c0 C s" "r = Gives (Thenable p)" "promises s p = Pending"
  shows "step this (Wake 0) s = s"
proof -
  have "leader s c0 (OnPromise p) (K_set_resolved key options 1 # tail_frames key options)"
    using assms(1,2) by (auto simp: producing_def)
  then show ?thesis using assms(3) by (simp add: step_def leader_def)
qed

lemma writing_IoDone:
  assumes "writing this key f r options c0 C s" "o_process options = None"
  shows "settled this key f r options c0 C (step this (IoDone 0 oc) s)"
  using assms by (cases oc) (auto simp: machine_defs phase_defs Let_def)

lemma failing_IoDone:
  assumes "failing this key f r options c0 C s" "o_process options = None"
  shows "settled this key f r options c0 C (step this (IoDone 0 oc) s)"
  using assms by (cases oc) (auto simp: machine_defs phase_defs Let_def)

text \<open>Events that do not concern the leader.\<close>

lemma follower_waits:
  assumes "others_follow options C s" "tid \<noteq> 0" "tasks s tid = Some tk"
  shows "waiting tk = OnPromise (I 1) \<and> stack tk = [K_withDefaultOpts options]
         \<and> (\<exists>c. target tk = Report c)"
proof -
  have "is_follower options (tasks s tid)" using assms(1,2) by (simp add: others_follow_def)
  then show ?thesis using assms(3) by (simp add: is_follower_def)
qed

lemma other_IoDone:
  assumes "others_follow options C s" "tid \<noteq> 0"
  shows "step this (IoDone tid oc) s = s"
proof (cases "tasks s tid")
  case None
  then show ?thesis by (simp add: step_def)
next
  case (Some tk)
  then show ?thesis using follower_waits[OF assms Some] by (simp add: step_def)
qed

lemma other_Fire:
  assumes "others_follow options C s" "tid \<noteq> 0"
  shows "step this (Fire tid) s = s"
proof (cases "tasks s tid")
  case None
  then show ?thesis by (simp add: step_def)
next
  case (Some tk)
  then show ?thesis using follower_waits[OF assms Some] by (simp add: step_def)
qed

lemma other_Wake_pending:
  assumes "others_follow options C s" "tid \<noteq> 0" "promises s (I 1) = Pending"
  shows "step this (Wake tid) s = s"
proof (cases "tasks s tid")
  case None
  then show ?thesis by (simp add: step_def)
next
  case (Some tk)
  then show ?thesis using follower_waits[OF assms(1,2) Some] assms(3) by (simp add: step_def)
qed

lemma leader_io_noop:
  assumes "leader s c0 (OnIO req) fs"
  shows "step this (Wake 0) s = s" "step this (Fire 0) s = s"
  using assms by (simp_all add: step_def leader_def)

lemma leader_promise_noop:
  assumes "leader s c0 (OnPromise p) fs"
  shows "step this (IoDone 0 oc) s = s" "step this (Fire 0) s = s"
  using assms by (simp_all add: step_def leader_def)

lemma no_leader_noop:
  assumes "tasks s 0 = None"
  shows "step this (IoDone 0 oc) s = s" "step this (Fire 0) s = s" "step this (Wake 0) s = s"
  using assms by (simp_all add: step_def)

lemma in_flight_Call:
  assumes "in_flight this key options C s" "\<not> truthy_ttl (o_staleTTL options)"
  shows "step this (Call c (Req_getOrSet key val options)) s
         = s\<lparr>next_tid := Suc (next_tid s),
             tasks := (tasks s)(next_tid s \<mapsto>
               \<lparr>waiting = OnPromise (I 1), stack = [K_withDefaultOpts options], target = Report c\<rparr>)\<rparr>"
  using assms by (simp add: machine_defs in_flight_def Let_def)

lemma waits_for_new:
  assumes "m n = None" "n \<noteq> 0"
  shows "waits_for (m(n \<mapsto> tk)) c \<longleftrightarrow> waits_for m c \<or> target tk = Report c"
proof
  assume "waits_for (m(n \<mapsto> tk)) c"
  then obtain tid tk' where t: "tid \<noteq> 0" "(m(n \<mapsto> tk)) tid = Some tk'" "target tk' = Report c"
    unfolding waits_for_def by (elim exE conjE)
  show "waits_for m c \<or> target tk = Report c"
  proof (cases "tid = n")
    case True
    then show ?thesis using t by simp
  next
    case False
    then have "m tid = Some tk'" using t(2) by simp
    then have "waits_for m c" unfolding waits_for_def using t(1,3) by blast
    then show ?thesis by simp
  qed
next
  assume a: "waits_for m c \<or> target tk = Report c"
  show "waits_for (m(n \<mapsto> tk)) c"
  proof (cases "target tk = Report c")
    case True
    have "(m(n \<mapsto> tk)) n = Some tk" by simp
    then show ?thesis unfolding waits_for_def using assms(2) True by blast
  next
    case False
    then obtain tid tk' where t: "tid \<noteq> 0" "m tid = Some tk'" "target tk' = Report c"
      using a unfolding waits_for_def by (elim disjE exE conjE) simp_all
    have "tid \<noteq> n" using t(2) assms(1) by auto
    then have "(m(n \<mapsto> tk)) tid = Some tk'" using t(2) by simp
    then show ?thesis unfolding waits_for_def using t(1,3) by blast
  qed
qed

lemma others_follow_new_follower:
  assumes "others_follow options C s"
  shows "others_follow options (insert c C) (s\<lparr>next_tid := Suc (next_tid s),
             tasks := (tasks s)(next_tid s \<mapsto>
               \<lparr>waiting = OnPromise (I 1), stack = [K_withDefaultOpts options], target = Report c\<rparr>)\<rparr>)"
proof -
  have n: "tasks s (next_tid s) = None" "next_tid s \<noteq> 0"
    using assms by (simp_all add: others_follow_def)
  show ?thesis
    using assms unfolding others_follow_def
    by (auto simp: waits_for_new[where m = "tasks s", OF n] is_follower_def)
qed

lemma in_flight_new_follower:
  assumes "in_flight this key options C s"
  shows "in_flight this key options (insert c C) (s\<lparr>next_tid := Suc (next_tid s),
             tasks := (tasks s)(next_tid s \<mapsto>
               \<lparr>waiting = OnPromise (I 1), stack = [K_withDefaultOpts options], target = Report c\<rparr>)\<rparr>)"
  using assms others_follow_new_follower[of options C s c] by (simp add: in_flight_def)

lemma dog_Call:
  assumes "dog_inv this key f r options c0 C s" "results s c0 = None"
    "\<not> truthy_ttl (o_staleTTL options)"
  shows "dog_inv this key f r options c0 (insert c C)
           (step this (Call c (Req_getOrSet key val options)) s)"
proof -
  have ns: "\<not> settled this key f r options c0 C s"
    using assms(2) by (simp add: settled_def settled_with_def)
  then have fl: "in_flight this key options C s"
    using assms(1) by (auto simp: dog_inv_def reading_def producing_def writing_def failing_def)
  note st = in_flight_Call[OF fl assms(3)]
  note nf = in_flight_new_follower[OF fl]
  have z: "0 < next_tid s" using fl by (simp add: in_flight_def others_follow_def)
  show ?thesis
    using assms(1) ns nf z unfolding st dog_inv_def reading_def producing_def writing_def failing_def
    by (auto simp: leader_def)
qed

lemma dog_Settle:
  assumes "dog_inv this key f r options c0 C s"
  shows "dog_inv this key f r options c0 C (step this (Settle n out) s)"
  using assms
  by (auto simp: step_def settle_def dog_inv_def reading_def producing_def writing_def failing_def
      settled_def settled_with_def in_flight_def others_follow_def leader_def)

lemma dog_Clock:
  assumes "dog_inv this key f r options c0 C s"
  shows "dog_inv this key f r options c0 C (step this (Clock t) s)"
  using assms
  by (auto simp: step_def dog_inv_def reading_def producing_def writing_def failing_def
      settled_def settled_with_def in_flight_def others_follow_def leader_def)

lemma follower_wake_step:
  assumes "tasks s tid = Some tk" "waiting tk = OnPromise (I 1)"
    "stack tk = [K_withDefaultOpts options]" "target tk = Report c"
    "promises s (I 1) = pstate_of out" "out = Return None \<longrightarrow> o_default options = None"
    "o_process options = None"
  shows "step this (Wake tid) s
      = s\<lparr>tasks := (tasks s)(tid := None), results := (results s)(c \<mapsto> out)\<rparr>"
proof (cases out)
  case (Return x)
  show ?thesis
  proof (cases x)
    case None
    then show ?thesis using assms Return
      by (simp add: step_def continue_def finish_def deliver_def withDefaultOpts_k_def
          apply_fn_def pstate_of_def)
  next
    case (Some y)
    then show ?thesis using assms Return
      by (simp add: step_def continue_def finish_def deliver_def withDefaultOpts_k_def
          apply_fn_def pstate_of_def)
  qed
next
  case (Throw e)
  then show ?thesis using assms
    by (simp add: step_def continue_def finish_def deliver_def withDefaultOpts_k_def
        apply_fn_def pstate_of_def)
qed

lemma waits_for_woken:
  assumes "m tid = Some tk" "target tk = Report c" "waits_for m c'"
  shows "waits_for (m(tid := None)) c' \<or> c' = c"
proof -
  obtain tid' tk' where t: "tid' \<noteq> 0" "m tid' = Some tk'" "target tk' = Report c'"
    using assms(3) unfolding waits_for_def by (elim exE conjE)
  show ?thesis
  proof (cases "tid' = tid")
    case True
    then have "tk' = tk" using t(2) assms(1) by simp
    then show ?thesis using t(3) assms(2) by simp
  next
    case False
    then have "(m(tid := None)) tid' = Some tk'" using t(2) by simp
    then have "waits_for (m(tid := None)) c'" unfolding waits_for_def using t(1,3) by blast
    then show ?thesis by simp
  qed
qed

lemma others_follow_woken:
  assumes "others_follow options C s" "tasks s tid = Some tk" "target tk = Report c"
  shows "others_follow options C
           (s\<lparr>tasks := (tasks s)(tid := None), results := (results s)(c \<mapsto> out)\<rparr>)"
proof -
  have w: "results s c' \<noteq> None \<or> waits_for (tasks s) c'" if "c' \<in> C" for c'
    using assms(1) that by (simp add: others_follow_def)
  have "c' = c \<or> results s c' \<noteq> None \<or> waits_for ((tasks s)(tid := None)) c'"
    if "c' \<in> C" for c'
    using w[OF that] waits_for_woken[where m = "tasks s", OF assms(2,3), of c'] by blast
  then show ?thesis using assms(1) by (auto simp: others_follow_def)
qed

lemma settled_Wake_step:
  assumes "settled_with this key f r options c0 C out s" "tid \<noteq> 0" "o_process options = None"
  shows "settled_with this key f r options c0 C out (step this (Wake tid) s)
         \<and> tasks (step this (Wake tid) s) = (tasks s)(tid := None)
         \<and> next_tid (step this (Wake tid) s) = next_tid s"
proof (cases "tasks s tid")
  case None
  then have "step this (Wake tid) s = s" by (simp add: step_def)
  then show ?thesis using assms(1) None by auto
next
  case (Some tk)
  have of: "others_follow options C s" and rest: "tasks s 0 = None" "calls s = [f]"
    and out: "results s c0 = Some out" "promises s (I 1) = pstate_of out"
      "out = Return None \<longrightarrow> o_default options = None"
      "\<forall>c. results s c = None \<or> results s c = Some out"
      "\<forall>x ttl. r = Gives (Plain x) \<and> parseTTL this (o_ttl options) = Inr ttl
          \<longrightarrow> out = Return (Some x)"
    using assms(1) by (simp_all add: settled_with_def)
  obtain c where tk: "waiting tk = OnPromise (I 1)" "stack tk = [K_withDefaultOpts options]"
    "target tk = Report c"
    using follower_waits[OF of assms(2) Some] by (elim conjE exE)
  note st = follower_wake_step[OF Some tk out(2,3) assms(3)]
  note of' = others_follow_woken[OF of Some tk(3), of out]
  have "settled_with this key f r options c0 C out
          (s\<lparr>tasks := (tasks s)(tid := None), results := (results s)(c \<mapsto> out)\<rparr>)"
    using of' out rest assms(2) by (simp add: settled_with_def)
  then show ?thesis unfolding st by simp
qed

lemma settled_Wake:
  assumes "settled this key f r options c0 C s" "tid \<noteq> 0" "o_process options = None"
  shows "settled this key f r options c0 C (step this (Wake tid) s)"
  using assms settled_Wake_step unfolding settled_def by blast

lemma phase_cases:
  assumes "dog_inv this key f r options c0 C s"
  obtains (a) "reading this key f r options c0 C s" | (b) "producing this key f r options c0 C s"
    | (c) "writing this key f r options c0 C s" | (d) "failing this key f r options c0 C s"
    | (e) "settled this key f r options c0 C s"
  using assms unfolding dog_inv_def by auto

lemma settled_no_leader:
  assumes "settled this key f r options c0 C s"
  shows "tasks s 0 = None"
  using assms by (auto simp: settled_def settled_with_def)

lemma producing_leader:
  assumes "producing this key f r options c0 C s"
  obtains p where "r = Gives (Thenable p)"
    "leader s c0 (OnPromise p) (K_set_resolved key options 1 # tail_frames key options)"
  using assms unfolding producing_def by auto

lemma writing_leader:
  assumes "writing this key f r options c0 C s"
  obtains req fs where "leader s c0 (OnIO req) fs"
  using assms unfolding writing_def by auto

lemma failing_leader:
  assumes "failing this key f r options c0 C s"
  obtains req fs where "leader s c0 (OnIO req) fs"
  using assms unfolding failing_def by auto

lemma reading_leader:
  assumes "reading this key f r options c0 C s"
  obtains req fs where "leader s c0 (OnIO req) fs"
  using assms unfolding reading_def by auto

lemma phase_others:
  assumes "dog_inv this key f r options c0 C s"
  shows "others_follow options C s"
  using assms
proof (cases rule: phase_cases)
  case a
  then show ?thesis by (simp add: reading_def in_flight_def)
next
  case b
  then show ?thesis by (simp add: producing_def in_flight_def)
next
  case c
  then show ?thesis by (simp add: writing_def in_flight_def)
next
  case d
  then show ?thesis by (simp add: failing_def in_flight_def)
next
  case e
  then show ?thesis by (auto simp: settled_def settled_with_def)
qed

lemma phase_pending:
  assumes "dog_inv this key f r options c0 C s" "\<not> settled this key f r options c0 C s"
  shows "promises s (I 1) = Pending"
  using assms unfolding dog_inv_def reading_def producing_def writing_def failing_def in_flight_def
  by auto

lemma dog_IoDone:
  assumes "dog_inv this key f r options c0 C s" "o_process options = None"
  shows "dog_inv this key f r options c0 C (step this (IoDone tid oc) s)"
proof (cases "tid = 0")
  case False
  then show ?thesis using other_IoDone[OF phase_others[OF assms(1)]] assms(1) by simp
next
  case True
  from assms(1) show ?thesis
  proof (cases rule: phase_cases)
    case a
    then show ?thesis using reading_IoDone[OF a assms(2), of oc] True by (auto simp: dog_inv_def)
  next
    case b
    then show ?thesis using leader_promise_noop(1) assms(1) True by (elim producing_leader) simp
  next
    case c
    then show ?thesis using writing_IoDone[OF c assms(2)] True by (simp add: dog_inv_def)
  next
    case d
    then show ?thesis using failing_IoDone[OF d assms(2)] True by (simp add: dog_inv_def)
  next
    case e
    then show ?thesis using no_leader_noop(1)[OF settled_no_leader[OF e]] assms(1) True by simp
  qed
qed

lemma leader_Fire:
  assumes "dog_inv this key f r options c0 C s"
  shows "step this (Fire 0) s = s"
  using assms
proof (cases rule: phase_cases)
  case a
  then show ?thesis using leader_io_noop(2) by (elim reading_leader)
next
  case b
  then show ?thesis using leader_promise_noop(2) by (elim producing_leader)
next
  case c
  then show ?thesis using leader_io_noop(2) by (elim writing_leader)
next
  case d
  then show ?thesis using leader_io_noop(2) by (elim failing_leader)
next
  case e
  then show ?thesis using no_leader_noop(2)[OF settled_no_leader[OF e]] by simp
qed

lemma dog_Fire:
  assumes "dog_inv this key f r options c0 C s"
  shows "dog_inv this key f r options c0 C (step this (Fire tid) s)"
proof (cases "tid = 0")
  case False
  then show ?thesis using other_Fire[OF phase_others[OF assms(1)]] assms(1) by simp
next
  case True
  then show ?thesis using leader_Fire[OF assms] assms by simp
qed

lemma leader_Wake:
  assumes "dog_inv this key f r options c0 C s" "o_process options = None"
  shows "dog_inv this key f r options c0 C (step this (Wake 0) s)"
  using assms(1)
proof (cases rule: phase_cases)
  case a
  then have "step this (Wake 0) s = s" using leader_io_noop(1) by (elim reading_leader)
  then show ?thesis using assms(1) by simp
next
  case b
  then obtain p where p: "r = Gives (Thenable p)" by (elim producing_leader)
  show ?thesis
  proof (cases "promises s p = Pending")
    case True
    then show ?thesis using producing_Wake_pending[OF b p True] assms(1) by simp
  next
    case False
    then show ?thesis using producing_Wake[OF b assms(2) p False] by (auto simp: dog_inv_def)
  qed
next
  case c
  then have "step this (Wake 0) s = s" using leader_io_noop(1) by (elim writing_leader)
  then show ?thesis using assms(1) by simp
next
  case d
  then have "step this (Wake 0) s = s" using leader_io_noop(1) by (elim failing_leader)
  then show ?thesis using assms(1) by simp
next
  case e
  then show ?thesis using no_leader_noop(3)[OF settled_no_leader[OF e]] assms(1) by simp
qed

lemma dog_Wake:
  assumes "dog_inv this key f r options c0 C s" "o_process options = None"
  shows "dog_inv this key f r options c0 C (step this (Wake tid) s)"
proof (cases "tid = 0")
  case True
  then show ?thesis using leader_Wake[OF assms] by simp
next
  case False
  show ?thesis
  proof (cases "settled this key f r options c0 C s")
    case True
    then show ?thesis using settled_Wake[OF True False assms(2)] by (simp add: dog_inv_def)
  next
    case ns: False
    have "step this (Wake tid) s = s"
      by (rule other_Wake_pending[OF phase_others[OF assms(1)] False phase_pending[OF assms(1) ns]])
    then show ?thesis using assms(1) by simp
  qed
qed

lemma dog_step:
  assumes "dog_inv this key f r options c0 C s" "o_process options = None"
    "\<not> truthy_ttl (o_staleTTL options)"
    "case ev of Call c q \<Rightarrow> q = Req_getOrSet key (Producer f r) options \<and> results s c0 = None
             | _ \<Rightarrow> True"
  shows "dog_inv this key f r options c0 (C \<union> set (callers [ev])) (step this ev s)"
proof (cases ev)
  case (Call c q)
  then show ?thesis using dog_Call[OF assms(1) _ assms(3)] assms(4) by simp
next
  case (IoDone tid oc)
  then show ?thesis using dog_IoDone[OF assms(1,2)] by simp
next
  case (Wake tid)
  then show ?thesis using dog_Wake[OF assms(1,2)] by simp
next
  case (Settle n out)
  then show ?thesis using dog_Settle[OF assms(1)] by simp
next
  case (Fire tid)
  then show ?thesis using dog_Fire[OF assms(1)] by simp
next
  case (Clock t)
  then show ?thesis using dog_Clock[OF assms(1)] by simp
qed

lemma callers_Cons: "set (callers (ev # evs)) = set (callers [ev]) \<union> set (callers evs)"
  by (cases ev) simp_all

lemma dog_run:
  assumes "o_process options = None" "\<not> truthy_ttl (o_staleTTL options)"
  shows "dog_inv this key f r options c0 C s \<Longrightarrow>
         overlapping this c0 (Req_getOrSet key (Producer f r) options) evs s \<Longrightarrow>
         dog_inv this key f r options c0 (C \<union> set (callers evs)) (run this evs s)"
proof (induction evs arbitrary: s C)
  case Nil
  then show ?case by simp
next
  case (Cons ev evs)
  have "dog_inv this key f r options c0 (C \<union> set (callers [ev])) (step this ev s)"
    using dog_step[OF Cons.prems(1) assms] Cons.prems(2) by simp
  then have "dog_inv this key f r options c0 ((C \<union> set (callers [ev])) \<union> set (callers evs))
               (run this evs (step this ev s))"
    using Cons.IH Cons.prems(2) by simp
  moreover have "(C \<union> set (callers [ev])) \<union> set (callers evs) = C \<union> set (callers (ev # evs))"
    by (cases ev) auto
  ultimately show ?case by (simp del: callers.simps)
qed

lemma dog_inv_calls:
  assumes "dog_inv this key f r options c0 C s"
  shows "calls s = [] \<or> calls s = [f]"
  using assms unfolding dog_inv_def reading_def producing_def writing_def failing_def settled_def
    settled_with_def
  by auto

lemma dog_inv_settled:
  assumes "dog_inv this key f r options c0 C s" "results s c0 \<noteq> None"
  shows "settled this key f r options c0 C s"
  using assms unfolding dog_inv_def reading_def producing_def writing_def failing_def in_flight_def
  by auto

lemma run_append: "run this (xs @ ys) s = run this ys (run this xs s)"
  by (induction xs arbitrary: s) simp_all

lemma producing_Settle:
  assumes "producing this key f r options c0 C s"
  shows "producing this key f r options c0 C (step this (Settle n out) s)"
  using assms
  by (auto simp: step_def settle_def producing_def in_flight_def others_follow_def leader_def)

lemma writing_Settle:
  assumes "writing this key f r options c0 C s"
  shows "writing this key f r options c0 C (step this (Settle n out) s)"
  using assms
  by (auto simp: step_def settle_def writing_def in_flight_def others_follow_def leader_def)

lemma failing_Settle:
  assumes "failing this key f r options c0 C s"
  shows "failing this key f r options c0 C (step this (Settle n out) s)"
  using assms
  by (auto simp: step_def settle_def failing_def in_flight_def others_follow_def leader_def)

lemma settled_Settle:
  assumes "settled this key f r options c0 C s"
  shows "settled this key f r options c0 C (step this (Settle n out) s)"
  using assms
  by (auto simp: step_def settle_def settled_def settled_with_def others_follow_def)

lemma Settle_settles: "promises (step this (Settle n out) s) (U n) \<noteq> Pending"
  by (cases out) (simp_all add: step_def settle_def)

text \<open>The four events of the leader bring every state of the invariant to a settled one.\<close>

lemma leader_completes:
  assumes "dog_inv this key f r options c0 C s" "o_process options = None"
    "\<forall>p. r = Gives (Thenable p) \<longrightarrow> (\<exists>n. p = U n)"
  shows "settled this key f r options c0 C (run this (leader_events r oc1 po oc2) s)"
proof -
  let ?P = "\<lambda>s. producing this key f r options c0 C s"
  let ?W = "\<lambda>s. writing this key f r options c0 C s"
  let ?F = "\<lambda>s. failing this key f r options c0 C s"
  let ?S = "\<lambda>s. settled this key f r options c0 C s"
  define s1 where "s1 = step this (IoDone 0 oc1) s"
  define s2 where "s2 = step this (Settle (promise_of r) po) s1"
  define s3 where "s3 = step this (Wake 0) s2"
  define s4 where "s4 = step this (IoDone 0 oc2) s3"
  have 1: "?P s1 \<or> ?W s1 \<or> ?F s1 \<or> ?S s1"
    using assms(1)
  proof (cases rule: phase_cases)
    case a
    then show ?thesis using reading_IoDone[OF a assms(2), of oc1] by (simp add: s1_def)
  next
    case b
    then have "s1 = s" unfolding s1_def using leader_promise_noop(1) by (elim producing_leader)
    then show ?thesis using b by simp
  next
    case c
    then show ?thesis using writing_IoDone[OF c assms(2), of oc1] by (simp add: s1_def)
  next
    case d
    then show ?thesis using failing_IoDone[OF d assms(2), of oc1] by (simp add: s1_def)
  next
    case e
    then have "s1 = s" unfolding s1_def using no_leader_noop(1)[OF settled_no_leader[OF e]] by simp
    then show ?thesis using e by simp
  qed
  have 2: "?P s2 \<or> ?W s2 \<or> ?F s2 \<or> ?S s2"
  proof -
    consider (b) "?P s1" | (c) "?W s1" | (d) "?F s1" | (e) "?S s1" using 1 by blast
    then show ?thesis
    proof cases
      case b
      then show ?thesis using producing_Settle[OF b] by (simp add: s2_def)
    next
      case c
      then show ?thesis using writing_Settle[OF c] by (simp add: s2_def)
    next
      case d
      then show ?thesis using failing_Settle[OF d] by (simp add: s2_def)
    next
      case e
      then show ?thesis using settled_Settle[OF e] by (simp add: s2_def)
    qed
  qed
  have settles: "promises s2 (U (promise_of r)) \<noteq> Pending"
    unfolding s2_def by (rule Settle_settles)
  have 3: "?W s3 \<or> ?F s3 \<or> ?S s3"
  proof -
    consider (b) "?P s2" | (c) "?W s2" | (d) "?F s2" | (e) "?S s2" using 2 by blast
    then show ?thesis
    proof cases
      case b
      then obtain p where p: "r = Gives (Thenable p)" by (elim producing_leader)
      then obtain n where n: "p = U n" using assms(3) by blast
      have "promise_of r = n" using p n by (simp add: promise_of_def)
      then have "promises s2 p \<noteq> Pending" using settles n by simp
      then show ?thesis using producing_Wake[OF b assms(2) p] by (simp add: s3_def)
    next
      case c
      then have "s3 = s2" unfolding s3_def using leader_io_noop(1) by (elim writing_leader)
      then show ?thesis using c by simp
    next
      case d
      then have "s3 = s2" unfolding s3_def using leader_io_noop(1) by (elim failing_leader)
      then show ?thesis using d by simp
    next
      case e
      then have "s3 = s2" unfolding s3_def using no_leader_noop(3)[OF settled_no_leader[OF e]] by simp
      then show ?thesis using e by simp
    qed
  qed
  have 4: "?S s4"
  proof -
    consider (c) "?W s3" | (d) "?F s3" | (e) "?S s3" using 3 by blast
    then show ?thesis
    proof cases
      case c
      then show ?thesis using writing_IoDone[OF c assms(2), of oc2] by (simp add: s4_def)
    next
      case d
      then show ?thesis using failing_IoDone[OF d assms(2), of oc2] by (simp add: s4_def)
    next
      case e
      then have "s4 = s3" unfolding s4_def using no_leader_noop(1)[OF settled_no_leader[OF e]] by simp
      then show ?thesis using e by simp
    qed
  qed
  have "run this (leader_events r oc1 po oc2) s = s4"
    by (simp add: leader_events_def s1_def s2_def s3_def s4_def)
  then show ?thesis using 4 by simp
qed

text \<open>Waking the followers of a settled state, in any order, empties their slots.\<close>

lemma wake_all:
  assumes "o_process options = None"
  shows "settled_with this key f r options c0 C out s \<Longrightarrow> 0 \<notin> set ws \<Longrightarrow>
         settled_with this key f r options c0 C out (run this (map Wake ws) s)
         \<and> (\<forall>tid. tasks (run this (map Wake ws) s) tid = (if tid \<in> set ws then None else tasks s tid))
         \<and> next_tid (run this (map Wake ws) s) = next_tid s"
proof (induction ws arbitrary: s)
  case Nil
  then show ?case by simp
next
  case (Cons w ws)
  have w: "w \<noteq> 0" and ws: "0 \<notin> set ws" using Cons.prems(2) by auto
  note one = settled_Wake_step[OF Cons.prems(1) w assms]
  note rest = Cons.IH[OF conjunct1[OF one] ws]
  show ?case using one rest by (auto simp: fun_upd_def)
qed

lemma all_woken:
  assumes "settled_with this key f r options c0 C out s" "o_process options = None"
    "s' = run this (map Wake [1 ..< next_tid s]) s"
  shows "settled_with this key f r options c0 C out s' \<and> (\<forall>c \<in> C. results s' c \<noteq> None)"
proof -
  have z: "0 \<notin> set [1 ..< next_tid s]" by simp
  note w = wake_all[OF assms(2) assms(1) z]
  have sw: "settled_with this key f r options c0 C out s'" using w assms(3) by simp
  have b: "\<forall>tid. next_tid s \<le> tid \<longrightarrow> tasks s tid = None"
    using assms(1) by (simp add: settled_with_def others_follow_def)
  have none: "tasks s' tid = None" if "tid \<noteq> 0" for tid
  proof (cases "tid < next_tid s")
    case True
    then have "tid \<in> set [1 ..< next_tid s]" using that by simp
    then show ?thesis using w assms(3) by simp
  next
    case False
    then have "tasks s tid = None" using b by simp
    then show ?thesis using w assms(3) by simp
  qed
  have "\<not> waits_for (tasks s') c" for c
    unfolding waits_for_def using none by auto
  moreover have "\<forall>c \<in> C. results s' c \<noteq> None \<or> waits_for (tasks s') c"
    using sw by (simp add: settled_with_def others_follow_def)
  ultimately show ?thesis using sw by blast
qed

lemma completes:
  assumes "dog_inv this key f r options c0 C s" "o_process options = None"
    "\<forall>p. r = Gives (Thenable p) \<longrightarrow> (\<exists>n. p = U n)"
    "s' = run this (completion this r oc1 po oc2 s) s"
  shows "\<exists>out. settled_with this key f r options c0 C out s' \<and> (\<forall>c \<in> C. results s' c \<noteq> None)"
proof -
  obtain out where sw: "settled_with this key f r options c0 C out (run this (leader_events r oc1 po oc2) s)"
    using leader_completes[OF assms(1-3)] unfolding settled_def by blast
  have "s' = run this (map Wake [1 ..< next_tid (run this (leader_events r oc1 po oc2) s)])
               (run this (leader_events r oc1 po oc2) s)"
    using assms(4) by (simp add: completion_def run_append)
  from all_woken[OF sw assms(2) this] show ?thesis by blast
qed

text \<open>
  Calls without a \<open>process\<close> option. On a cache with nothing in flight whose backend
  holds no entry for the key, let any number of callers call \<open>getOrSet\<close> with the same
  key, producer and options (no \<open>staleTTL\<close>, no \<open>forceUpdate\<close>, no \<open>process\<close>, cache
  not bypassed), each call made before the first one has settled, and let the backend
  calls, the producer's promise, the wake-ups and the clock come in any order (\<open>evs\<close>).
  Then the producer is never called more than once; when all the callers have settled it
  has been called exactly once and all of them have the same outcome, which is the
  produced value when the producer returns a plain value and the \<open>ttl\<close> parses; and all
  the callers do settle, in this way, once the backend has answered the leader (with
  success or failure), the producer's promise has settled (fulfilled or rejected) and the
  followers have been resumed, provided that a promise returned by the producer is one
  that the environment settles.
\<close>

theorem getOrSet_dogpile:
  assumes "st (u_key this key) = None"
    and "\<not> isBypassed this" "\<not> truthy_ttl (o_staleTTL options)" "\<not> o_forceUpdate options"
    and "o_process options = None"
    and "req = Req_getOrSet key (Producer f r) options"
    and "overlapping this c0 req evs (step this (Call c0 req) (init st t0))"
    and "s = run this (Call c0 req # evs) (init st t0)"
    and "s' = run this (completion this r oc1 po oc2 s) s"
  shows "(calls s = [] \<or> calls s = [f])
       \<and> ((\<forall>c \<in> set (c0 # callers evs). results s c \<noteq> None) \<longrightarrow>
            calls s = [f]
            \<and> (\<exists>out. (\<forall>c \<in> set (c0 # callers evs). results s c = Some out)
                   \<and> (\<forall>x ttl. r = Gives (Plain x) \<and> parseTTL this (o_ttl options) = Inr ttl
          \<longrightarrow> out = Return (Some x))))
       \<and> ((\<forall>p. r = Gives (Thenable p) \<longrightarrow> (\<exists>n. p = U n)) \<longrightarrow>
            calls s' = [f]
            \<and> (\<exists>out. (\<forall>c \<in> set (c0 # callers evs). results s' c = Some out)
                   \<and> (\<forall>x ttl. r = Gives (Plain x) \<and> parseTTL this (o_ttl options) = Inr ttl
          \<longrightarrow> out = Return (Some x))))"
proof -
  let ?C = "set (callers evs)"
  have start: "dog_inv this key f r options c0 {} (step this (Call c0 req) (init st t0))"
    using init_reading[where st = st and this = this and key = key and options = options
        and f = f and r = r and ?c0.0 = c0 and ?t0.0 = t0, OF assms(1-4)] assms(6)
    by (simp add: dog_inv_def)
  have inv: "dog_inv this key f r options c0 ?C s"
    using dog_run[OF assms(5,3) start] assms(6,7,8) by simp
  have 1: "calls s = [] \<or> calls s = [f]" by (rule dog_inv_calls[OF inv])
  have same: "calls \<sigma> = [f]
            \<and> (\<exists>out. (\<forall>c \<in> set (c0 # callers evs). results \<sigma> c = Some out)
                   \<and> (\<forall>x ttl. r = Gives (Plain x) \<and> parseTTL this (o_ttl options) = Inr ttl
          \<longrightarrow> out = Return (Some x)))"
    if sw: "settled_with this key f r options c0 ?C out \<sigma>"
      and all: "\<forall>c \<in> ?C. results \<sigma> c \<noteq> None" for out \<sigma>
  proof -
    have a: "calls \<sigma> = [f]" and b: "\<forall>c. results \<sigma> c = None \<or> results \<sigma> c = Some out"
      and c: "\<forall>x ttl. r = Gives (Plain x) \<and> parseTTL this (o_ttl options) = Inr ttl
          \<longrightarrow> out = Return (Some x)"
      and d: "results \<sigma> c0 = Some out"
      using sw by (simp_all add: settled_with_def)
    have "results \<sigma> c = Some out" if "c \<in> set (callers evs)" for c
    proof -
      have "results \<sigma> c \<noteq> None" using all that by (rule bspec)
      moreover have "results \<sigma> c = None \<or> results \<sigma> c = Some out" using b by (rule spec)
      ultimately show ?thesis by auto
    qed
    then have "\<forall>c \<in> set (c0 # callers evs). results \<sigma> c = Some out"
      using d by simp
    then show ?thesis using a c by blast
  qed
  have 2: "calls s = [f]
            \<and> (\<exists>out. (\<forall>c \<in> set (c0 # callers evs). results s c = Some out)
                   \<and> (\<forall>x ttl. r = Gives (Plain x) \<and> parseTTL this (o_ttl options) = Inr ttl
          \<longrightarrow> out = Return (Some x)))"
    if all: "\<forall>c \<in> set (c0 # callers evs). results s c \<noteq> None"
  proof -
    have "results s c0 \<noteq> None" using all by simp
    then obtain out where sw: "settled_with this key f r options c0 ?C out s"
      using dog_inv_settled[OF inv] unfolding settled_def by blast
    show ?thesis using same[OF sw] all by simp
  qed
  have 3: "calls s' = [f]
            \<and> (\<exists>out. (\<forall>c \<in> set (c0 # callers evs). results s' c = Some out)
                   \<and> (\<forall>x ttl. r = Gives (Plain x) \<and> parseTTL this (o_ttl options) = Inr ttl
          \<longrightarrow> out = Return (Some x)))"
    if user: "\<forall>p. r = Gives (Thenable p) \<longrightarrow> (\<exists>n. p = U n)"
  proof -
    obtain out where sw: "settled_with this key f r options c0 ?C out s'"
      and all: "\<forall>c \<in> ?C. results s' c \<noteq> None"
      using completes[OF inv assms(5) user assms(9)] by blast
    show ?thesis by (rule same[OF sw all])
  qed
  show ?thesis using 1 2 3 by blast
qed

text \<open>
  Three callers without a \<open>process\<close> option: the second calls before the backend read
  completes, the third while the value is written; and with a producer that returns a
  promise, settled after the three calls.
\<close>

theorem getOrSet_dogpile_witness:
  "calls (run this0 [Call 0 (Req_getOrSet ''k'' (Producer 7 (Gives (Plain (JNum 1)))) no_opts),
                     Call 1 (Req_getOrSet ''k'' (Producer 7 (Gives (Plain (JNum 1)))) no_opts),
                     IoDone 0 Succeed,
                     Call 2 (Req_getOrSet ''k'' (Producer 7 (Gives (Plain (JNum 1)))) no_opts),
                     IoDone 0 Succeed, Wake 2, Wake 1] (init Map.empty 1000)) = [7]
   \<and> map (results (run this0
                     [Call 0 (Req_getOrSet ''k'' (Producer 7 (Gives (Plain (JNum 1)))) no_opts),
                      Call 1 (Req_getOrSet ''k'' (Producer 7 (Gives (Plain (JNum 1)))) no_opts),
                      IoDone 0 Succeed,
                      Call 2 (Req_getOrSet ''k'' (Producer 7 (Gives (Plain (JNum 1)))) no_opts),
                      IoDone 0 Succeed, Wake 2, Wake 1] (init Map.empty 1000))) [0, 1, 2]
     = [Some (Return (Some (JNum 1))), Some (Return (Some (JNum 1))),
        Some (Return (Some (JNum 1)))]
   \<and> calls (run this0
        (completion this0 (Gives (Thenable (U 5))) Succeed (Return (Some (JNum 2))) Succeed
           (run this0
              [Call 0 (Req_getOrSet ''k'' (Producer 7 (Gives (Thenable (U 5)))) no_opts),
               Call 1 (Req_getOrSet ''k'' (Producer 7 (Gives (Thenable (U 5)))) no_opts),
               IoDone 0 Succeed,
               Call 2 (Req_getOrSet ''k'' (Producer 7 (Gives (Thenable (U 5)))) no_opts)]
              (init Map.empty 1000)))
        (run this0
           [Call 0 (Req_getOrSet ''k'' (Producer 7 (Gives (Thenable (U 5)))) no_opts),
            Call 1 (Req_getOrSet ''k'' (Producer 7 (Gives (Thenable (U 5)))) no_opts),
            IoDone 0 Succeed,
            Call 2 (Req_getOrSet ''k'' (Producer 7 (Gives (Thenable (U 5)))) no_opts)]
           (init Map.empty 1000))) = [7]
   \<and> map (results (run this0
        (completion this0 (Gives (Thenable (U 5))) Succeed (Return (Some (JNum 2))) Succeed
           (run this0
              [Call 0 (Req_getOrSet ''k'' (Producer 7 (Gives (Thenable (U 5)))) no_opts),
               Call 1 (Req_getOrSet ''k'' (Producer 7 (Gives (Thenable (U 5)))) no_opts),
               IoDone 0 Succeed,
               Call 2 (Req_getOrSet ''k'' (Producer 7 (Gives (Thenable (U 5)))) no_opts)]
              (init Map.empty 1000)))
        (run this0
           [Call 0 (Req_getOrSet ''k'' (Producer 7 (Gives (Thenable (U 5)))) no_opts),
            Call 1 (Req_getOrSet ''k'' (Producer 7 (Gives (Thenable (U 5)))) no_opts),
            IoDone 0 Succeed,
            Call 2 (Req_getOrSet ''k'' (Producer 7 (Gives (Thenable (U 5)))) no_opts)]
           (init Map.empty 1000)))) [0, 1, 2]
     = [Some (Return (Some (JNum 2))), Some (Return (Some (JNum 2))),
        Some (Return (Some (JNum 2)))]"
proof -
  let ?req = "Req_getOrSet ''k'' (Producer 7 (Gives (Plain (JNum 1)))) no_opts"
  let ?evs = "[Call 1 ?req, IoDone 0 Succeed, Call 2 ?req, IoDone 0 Succeed, Wake 2, Wake 1]"
  let ?s = "run this0 (Call 0 ?req # ?evs) (init Map.empty 1000)"
  let ?r = "Gives (Thenable (U 5))"
  let ?q = "Req_getOrSet ''k'' (Producer 7 ?r) no_opts"
  let ?mid = "[Call 1 ?q, IoDone 0 Succeed, Call 2 ?q]"
  let ?m = "run this0 (Call 0 ?q # ?mid) (init Map.empty 1000)"
  let ?m' = "run this0 (completion this0 ?r Succeed (Return (Some (JNum 2))) Succeed ?m) ?m"
  have h1: "(Map.empty :: key \<rightharpoonup> CacheValue) (u_key this0 ''k'') = None" by simp
  have h2: "\<not> isBypassed this0" by (simp add: this0_def new_cache_def isBypassed_def)
  have h3: "\<not> truthy_ttl (o_staleTTL no_opts)" by (simp add: no_opts_def truthy_ttl_def)
  have h4: "\<not> o_forceUpdate no_opts" by (simp add: no_opts_def)
  have h5: "o_process no_opts = None" by (simp add: no_opts_def)
  have pt: "parseTTL this0 (o_ttl no_opts) = Inr None" by (simp add: no_opts_def parseTTL_def)
  have ov: "overlapping this0 0 ?req ?evs (step this0 (Call 0 ?req) (init Map.empty 1000))"
    by (simp add: machine_defs example_defs Let_def)
  have all: "\<forall>c \<in> set (0 # callers ?evs). results ?s c \<noteq> None"
    by (simp add: machine_defs example_defs Let_def)
  from getOrSet_dogpile[where st = Map.empty and this = this0 and key = "''k''"
      and options = no_opts and ?c0.0 = 0 and ?t0.0 = 1000, OF h1 h2 h3 h4 h5 refl ov refl refl] all
  have "calls ?s = [7] \<and> (\<exists>out. (\<forall>c \<in> set (0 # callers ?evs). results ?s c = Some out)
                   \<and> (\<forall>x ttl. Gives (Plain (JNum 1)) = Gives (Plain x)
                        \<and> parseTTL this0 (o_ttl no_opts) = Inr ttl \<longrightarrow> out = Return (Some x)))"
    by blast
  then have A: "calls ?s = [7] \<and> map (results ?s) [0, 1, 2]
       = [Some (Return (Some (JNum 1))), Some (Return (Some (JNum 1))),
          Some (Return (Some (JNum 1)))]"
    using pt by auto
  have ov': "overlapping this0 0 ?q ?mid (step this0 (Call 0 ?q) (init Map.empty 1000))"
    by (simp add: machine_defs example_defs Let_def)
  have user: "\<forall>p. ?r = Gives (Thenable p) \<longrightarrow> (\<exists>n. p = U n)" by simp
  have first: "results ?m' 0 = Some (Return (Some (JNum 2)))"
    by (simp add: machine_defs example_defs completion_def leader_events_def promise_of_def Let_def)
  from getOrSet_dogpile[where st = Map.empty and this = this0 and key = "''k''"
      and options = no_opts and ?c0.0 = 0 and ?t0.0 = 1000, OF h1 h2 h3 h4 h5 refl ov' refl refl] user
  have "calls ?m' = [7] \<and> (\<exists>out. (\<forall>c \<in> set (0 # callers ?mid). results ?m' c = Some out)
                   \<and> (\<forall>x ttl. ?r = Gives (Plain x)
                        \<and> parseTTL this0 (o_ttl no_opts) = Inr ttl \<longrightarrow> out = Return (Some x)))"
    by blast
  then have B: "calls ?m' = [7] \<and> map (results ?m') [0, 1, 2]
       = [Some (Return (Some (JNum 2))), Some (Return (Some (JNum 2))),
          Some (Return (Some (JNum 2)))]"
    using first by auto
  show ?thesis using A B by simp
qed

text \<open>
  Claim C2: concurrent callers of \<open>getOrSet\<close> with the same key and producer (no
  \<open>staleTTL\<close>, no bypass, no \<open>forceUpdate\<close>) have the producer called once and all
  resolve to the same value. With a \<open>process\<close> option the second part fails: two callers
  with the options \<open>incrementing\<close> and a producer that returns 1. The producer is called
  once and 1 is stored; the caller whose call computes receives \<open>process 1 = 2\<close> from
  \<^verbatim>\<open>_setBoth\<close>, and the caller that waits for it receives \<open>process 2 = 3\<close>, because
  \<^verbatim>\<open>_withDefaultOpts\<close> applies \<open>process\<close> again to the settled value.
\<close>

theorem follower_processed_twice:
  "calls (run this0 [Call 0 (Req_getOrSet ''k'' (Producer 7 (Gives (Plain (JNum 1)))) incrementing),
                     Call 1 (Req_getOrSet ''k'' (Producer 7 (Gives (Plain (JNum 1)))) incrementing),
                     IoDone 0 Succeed, IoDone 0 Succeed, Wake 1] (init Map.empty 1000)) = [7]
   \<and> map (results (run this0
                     [Call 0 (Req_getOrSet ''k'' (Producer 7 (Gives (Plain (JNum 1)))) incrementing),
                      Call 1 (Req_getOrSet ''k'' (Producer 7 (Gives (Plain (JNum 1)))) incrementing),
                      IoDone 0 Succeed, IoDone 0 Succeed, Wake 1] (init Map.empty 1000))) [0, 1]
     = [Some (Return (Some (JNum 2))), Some (Return (Some (JNum 3)))]
   \<and> map_option cv_v (store (run this0
                     [Call 0 (Req_getOrSet ''k'' (Producer 7 (Gives (Plain (JNum 1)))) incrementing),
                      Call 1 (Req_getOrSet ''k'' (Producer 7 (Gives (Plain (JNum 1)))) incrementing),
                      IoDone 0 Succeed, IoDone 0 Succeed, Wake 1] (init Map.empty 1000))
        (u_key this0 ''k'')) = Some (JNum 1)"
  by (simp add: machine_defs example_defs Let_def)

end
